theory Spec2Isabelle
  imports
    Main
    "HOL-Library.Sublist"
    "HOL-Library.Char_ord"
    "HOL-Library.List_Lexorder"
    "HOL-Library.Product_Lexorder"
begin

section \<open>Python strings\<close>

text \<open>
  A Python \<open>str\<close> is a sequence of code points. The model uses \<^typ>\<open>string\<close>, reading each
  \<^typ>\<open>char\<close> as a code point below 256; \<^const>\<open>length\<close> then counts what Python's
  \<open>len\<close> counts. The character classes below are those of Python on that range.
\<close>

definition TAB :: char where
  "TAB = CHR 0x09"

definition NL :: char where
  "NL = CHR 0x0A"

definition TERMINATOR :: string where
  "TERMINATOR = [CHR 0x3B, CHR 0x22]"

definition is_space :: "char \<Rightarrow> bool" where
  "is_space c =
     (let n = (of_char c :: nat)
      in (9 \<le> n \<and> n \<le> 13) \<or> (28 \<le> n \<and> n \<le> 32) \<or> n = 133 \<or> n = 160)"

definition is_decimal :: "char \<Rightarrow> bool" where
  "is_decimal c = (let n = (of_char c :: nat) in 48 \<le> n \<and> n \<le> 57)"

definition is_digit :: "char \<Rightarrow> bool" where
  "is_digit c =
     (let n = (of_char c :: nat) in (48 \<le> n \<and> n \<le> 57) \<or> n = 178 \<or> n = 179 \<or> n = 185)"

definition lower_char :: "char \<Rightarrow> char" where
  "lower_char c =
     (let n = (of_char c :: nat)
      in if (65 \<le> n \<and> n \<le> 90) \<or> (192 \<le> n \<and> n \<le> 222 \<and> n \<noteq> 215)
         then char_of (n + 32) else c)"

definition py_lower :: "string \<Rightarrow> string" where
  "py_lower s = map lower_char s"

definition py_strip :: "string \<Rightarrow> string" where
  "py_strip s = rev (dropWhile is_space (rev (dropWhile is_space s)))"

definition py_startswith :: "string \<Rightarrow> string \<Rightarrow> bool" where
  "py_startswith s p = prefix p s"

definition py_endswith :: "string \<Rightarrow> string \<Rightarrow> bool" where
  "py_endswith s p = prefix (rev p) (rev s)"

text \<open>\<open>s.isdigit()\<close>: non-empty and every character has the digit property.\<close>

definition py_isdigit :: "string \<Rightarrow> bool" where
  "py_isdigit s = (s \<noteq> [] \<and> list_all is_digit s)"

datatype py_error = ValueError | OSError

text \<open>
  The limit of \<open>int\<close> on the length of a decimal string, CPython's default
  \<open>sys.int_info.default_max_str_digits\<close> (Python 3.11, and the security releases of
  3.7 to 3.10).
\<close>

definition int_max_str_digits :: nat where
  "int_max_str_digits = 4300"

text \<open>
  \<open>int(s)\<close> on a string that passed \<open>isdigit\<close>: the superscript digits have the digit
  property but are no decimal digits, and \<open>int\<close> raises \<open>ValueError\<close> on them, as it
  does on a string of more digits than the limit.
\<close>

definition py_int :: "string \<Rightarrow> py_error + int" where
  "py_int s =
     (if s \<noteq> [] \<and> list_all is_decimal s \<and> length s \<le> int_max_str_digits
      then Inr (foldl (\<lambda>acc c. 10 * acc + (int (of_char c) - 48)) 0 s)
      else Inl ValueError)"

text \<open>\<open>s.split(sep)\<close> for a separator of one character.\<close>

fun py_split :: "char \<Rightarrow> string \<Rightarrow> string list" where
  "py_split sep [] = [[]]"
| "py_split sep (c # cs) =
     (if c = sep then [] # py_split sep cs
      else (case py_split sep cs of
              [] \<Rightarrow> [[c]]
            | x # xs \<Rightarrow> (c # x) # xs))"

text \<open>\<open>sep.join(xs)\<close>.\<close>

fun py_join :: "string \<Rightarrow> string list \<Rightarrow> string" where
  "py_join sep [] = []"
| "py_join sep [x] = x"
| "py_join sep (x # y # ys) = x @ sep @ py_join sep (y # ys)"

text \<open>
  \<open>f.readlines()\<close> and iteration over a text file: the text is cut after every newline,
  which stays at the end of its line.
\<close>

fun py_readlines :: "string \<Rightarrow> string list" where
  "py_readlines [] = []"
| "py_readlines (c # cs) =
     (if c = NL then [c] # py_readlines cs
      else (case py_readlines cs of
              [] \<Rightarrow> [[c]]
            | x # xs \<Rightarrow> (c # x) # xs))"

text \<open>
  \<open>s.find(sub, start)\<close> for \<open>start \<ge> 0\<close>: the lowest index \<open>i \<ge> start\<close> at which
  \<open>sub\<close> occurs in \<open>s\<close>; Python's \<open>-1\<close> is \<open>None\<close>.
\<close>

fun find_first :: "string \<Rightarrow> string \<Rightarrow> nat option" where
  "find_first sub [] = (if sub = [] then Some 0 else None)"
| "find_first sub (c # cs) =
     (if prefix sub (c # cs) then Some 0 else map_option Suc (find_first sub cs))"

definition py_find :: "string \<Rightarrow> string \<Rightarrow> nat \<Rightarrow> nat option" where
  "py_find s sub start =
     (if length s < start then None
      else map_option (\<lambda>i. i + start) (find_first sub (drop start s)))"

text \<open>\<open>sub in s\<close>.\<close>

definition py_in :: "string \<Rightarrow> string \<Rightarrow> bool" where
  "py_in sub s = (py_find s sub 0 \<noteq> None)"

text \<open>
  The specification of a match: \<open>sub\<close> occurs in \<open>s\<close> at index \<open>i\<close>, that is
  \<open>s[i:i+len(sub)] == sub\<close> with the slice inside \<open>s\<close>.
\<close>

definition occurs_at :: "string \<Rightarrow> string \<Rightarrow> nat \<Rightarrow> bool" where
  "occurs_at sub s i = (i + length sub \<le> length s \<and> take (length sub) (drop i s) = sub)"

text \<open>
  \<open>s.replace(old, new)\<close>: the matches of \<open>old\<close> are taken from left to right without
  overlap; an empty \<open>old\<close> matches before every character and at the end.
\<close>

fun replace_from :: "string \<Rightarrow> string \<Rightarrow> string \<Rightarrow> string" where
  "replace_from old new [] = []"
| "replace_from old new (c # cs) =
     (if prefix old (c # cs) then new @ replace_from old new (drop (length old - 1) cs)
      else c # replace_from old new cs)"

definition py_replace :: "string \<Rightarrow> string \<Rightarrow> string \<Rightarrow> string" where
  "py_replace s old new =
     (if old = [] then new @ concat (map (\<lambda>c. c # new) s) else replace_from old new s)"

section \<open>Tag records and the tag table parser (ctags_mcp_tool.py)\<close>

record tag =
  tag_name :: string
  tag_filename :: string
  tag_excmd :: string
  tag_kind :: string
  tag_line :: int
  tag_typeref :: string
  tag_scope :: string
  tag_access :: string
  tag_signature :: string
  tag_line_number :: nat

text \<open>\<open>ext_fields.get(key, '')\<close> on the dictionary of extension fields.\<close>

definition get_field :: "(string \<rightharpoonup> string) \<Rightarrow> string \<Rightarrow> string" where
  "get_field ext_fields key = (case ext_fields key of None \<Rightarrow> [] | Some v \<Rightarrow> v)"

text \<open>
  The loop over \<open>ext_part.split('\t')\<close>: a field with a colon is cut at the first colon
  (\<open>field.split(':', 1)\<close>) and stored.
\<close>

definition add_field :: "string \<Rightarrow> (string \<rightharpoonup> string) \<Rightarrow> (string \<rightharpoonup> string)" where
  "add_field field ext_fields =
     (if CHR '':'' \<in> set field
      then ext_fields(takeWhile (\<lambda>c. c \<noteq> CHR '':'') field
                        \<mapsto> tl (dropWhile (\<lambda>c. c \<noteq> CHR '':'') field))
      else ext_fields)"

definition parse_ext_fields :: "string list \<Rightarrow> (string \<rightharpoonup> string)" where
  "parse_ext_fields parts =
     (if length parts > 3
      then (let ext_part = parts ! 3;
                ext_part = (if py_endswith ext_part TERMINATOR
                            then take (length ext_part - 2) ext_part else ext_part)
            in fold add_field (py_split TAB ext_part) Map.empty)
      else Map.empty)"

definition parse_line_field :: "(string \<rightharpoonup> string) \<Rightarrow> py_error + int" where
  "parse_line_field ext_fields =
     (if py_isdigit (get_field ext_fields ''line'')
      then py_int (get_field ext_fields ''line'') else Inr 0)"

text \<open>
  \<open>_parse_tag_line\<close>: \<open>Inr None\<close> is the \<open>None\<close> of a line with fewer than three parts,
  \<open>Inl\<close> an exception that leaves the function.
\<close>

definition parse_tag_line :: "string \<Rightarrow> nat \<Rightarrow> py_error + tag option" where
  "parse_tag_line ln line_num =
     (let parts = py_split TAB ln
      in if length parts < 3 then Inr None
         else (let ext_fields = parse_ext_fields parts
               in case parse_line_field ext_fields of
                    Inl e \<Rightarrow> Inl e
                  | Inr n \<Rightarrow>
                      Inr (Some \<lparr>tag_name = parts ! 0,
                                 tag_filename = parts ! 1,
                                 tag_excmd = parts ! 2,
                                 tag_kind = get_field ext_fields ''kind'',
                                 tag_line = n,
                                 tag_typeref = get_field ext_fields ''typeref'',
                                 tag_scope = get_field ext_fields ''scope'',
                                 tag_access = get_field ext_fields ''access'',
                                 tag_signature = get_field ext_fields ''signature'',
                                 tag_line_number = line_num\<rparr>)))"

text \<open>
  The value \<open>ext_fields.get('line', '')\<close> that \<open>_parse_tag_line\<close> reads for a tag line.
\<close>

definition line_field :: "string \<Rightarrow> string" where
  "line_field ln = get_field (parse_ext_fields (py_split TAB ln)) ''line''"

text \<open>
  A stripped line of the table for which \<open>_load_tags\<close> reaches \<open>int\<close> with a string
  that \<open>int\<close> rejects: no metadata line, at least three parts, and a \<open>line\<close> value that
  passes \<open>isdigit\<close> but has a digit that is no decimal digit, or too many digits.
\<close>

definition int_rejects :: "string \<Rightarrow> bool" where
  "int_rejects ln =
     (\<not> py_startswith ln ''!_TAG_'' \<and> 3 \<le> length (py_split TAB ln)
      \<and> py_isdigit (line_field ln)
      \<and> \<not> (list_all is_decimal (line_field ln)
             \<and> length (line_field ln) \<le> int_max_str_digits))"

text \<open>
  A file of the file system: absent, present but not readable (\<open>open\<close> or the decoding
  raises), or stored with whether it may be written and with its text, as \<open>read()\<close>
  returns it in text mode (every line end is a newline character).
\<close>

datatype file_state = Missing | Unreadable | Stored bool string

text \<open>The loop of \<open>_load_tags\<close> over \<open>enumerate(f, 1)\<close>, with \<open>self.tags\<close> as accumulator.\<close>

fun load_loop :: "nat \<Rightarrow> string list \<Rightarrow> tag list \<Rightarrow> py_error + tag list" where
  "load_loop line_num [] tags = Inr tags"
| "load_loop line_num (l # ls) tags =
     (let ln = py_strip l
      in if py_startswith ln ''!_TAG_'' then load_loop (Suc line_num) ls tags
         else (case parse_tag_line ln line_num of
                 Inl e \<Rightarrow> Inl e
               | Inr None \<Rightarrow> load_loop (Suc line_num) ls tags
               | Inr (Some t) \<Rightarrow> load_loop (Suc line_num) ls (tags @ [t])))"

definition load_tags :: "file_state \<Rightarrow> py_error + tag list" where
  "load_tags f =
     (case f of
        Missing \<Rightarrow> Inr []
      | Unreadable \<Rightarrow> Inl OSError
      | Stored w text \<Rightarrow> load_loop 1 (py_readlines text) [])"

section \<open>Queries over the loaded tags (ctags_mcp_tool.py)\<close>

text \<open>
  \<open>if kind and tag['kind'] != kind: continue\<close>: a filter that is \<open>None\<close> or the empty
  string is falsy and rejects nothing.
\<close>

definition kind_rejects :: "string option \<Rightarrow> tag \<Rightarrow> bool" where
  "kind_rejects kind t = (case kind of None \<Rightarrow> False | Some k \<Rightarrow> k \<noteq> [] \<and> tag_kind t \<noteq> k)"

definition filename_rejects :: "string option \<Rightarrow> tag \<Rightarrow> bool" where
  "filename_rejects filename t =
     (case filename of None \<Rightarrow> False | Some f \<Rightarrow> f \<noteq> [] \<and> \<not> py_in f (tag_filename t))"

text \<open>The key \<open>(x['filename'], x['line'])\<close> by which \<open>find_symbols\<close> sorts.\<close>

definition file_line_key :: "tag \<Rightarrow> string \<times> int" where
  "file_line_key t = (tag_filename t, tag_line t)"

definition sort_by_file_line :: "tag list \<Rightarrow> tag list" where
  "sort_by_file_line ts = sort_key file_line_key ts"

definition find_symbols :: "tag list \<Rightarrow> string \<Rightarrow> string option \<Rightarrow> string option \<Rightarrow> tag list" where
  "find_symbols tags query kind filename =
     (let query_lower = py_lower query
      in sort_by_file_line
           (filter (\<lambda>t. \<not> kind_rejects kind t \<and> \<not> filename_rejects filename t
                          \<and> py_in query_lower (py_lower (tag_name t))) tags))"

definition find_definition :: "tag list \<Rightarrow> string \<Rightarrow> tag list" where
  "find_definition tags symbol =
     (let exact_matches = filter (\<lambda>t. tag_name t = symbol) tags
      in if exact_matches \<noteq> [] then exact_matches
         else find_symbols tags symbol None None)"

definition find_references :: "tag list \<Rightarrow> string \<Rightarrow> tag list" where
  "find_references tags symbol =
     filter (\<lambda>t. py_in symbol (tag_name t) \<or> py_in symbol (tag_typeref t)) tags"

text \<open>The adapter \<open>CtagsMCPTool\<close> cuts the lists.\<close>

definition tool_find_definition :: "tag list \<Rightarrow> string \<Rightarrow> tag list" where
  "tool_find_definition tags symbol = take 10 (find_definition tags symbol)"

definition tool_find_references :: "tag list \<Rightarrow> string \<Rightarrow> tag list" where
  "tool_find_references tags symbol = take 50 (find_references tags symbol)"

section \<open>The editor adapter (ctags_cursor_integration.py)\<close>

record reference =
  ref_file :: string
  ref_line :: int
  ref_column :: nat
  ref_kind :: string
  ref_context :: string

definition cursor_find_all_references :: "tag list \<Rightarrow> string \<Rightarrow> reference list" where
  "cursor_find_all_references tags symbol =
     map (\<lambda>t. \<lparr>ref_file = tag_filename t, ref_line = tag_line t, ref_column = 1,
                ref_kind = tag_kind t, ref_context = tag_excmd t\<rparr>)
         (tool_find_references tags symbol)"

section \<open>The comment classifier (refactor_tool_advanced.py)\<close>

definition is_comment_line :: "string \<Rightarrow> bool" where
  "is_comment_line line =
     (let stripped = py_strip line
      in if py_startswith stripped ''//'' \<or> py_startswith stripped ''/*''
            \<or> py_startswith stripped ''*'' then True
         else if py_in ''/*'' stripped \<and> py_in ''*/'' stripped then True
         else if py_startswith stripped ''///'' \<or> py_startswith stripped ''* @'' then True
         else False)"

text \<open>The callers pass a position that \<open>find\<close> returned, so it is a natural number.\<close>

definition is_in_comment :: "string \<Rightarrow> nat \<Rightarrow> bool" where
  "is_in_comment line position =
     (if (case py_find line ''//'' 0 of
            None \<Rightarrow> False
          | Some comment_pos \<Rightarrow> comment_pos < position) then True
      else (case py_find line ''/*'' 0 of
              None \<Rightarrow> False
            | Some block_start \<Rightarrow>
                if block_start < position
                then (case py_find line ''*/'' block_start of
                        None \<Rightarrow> True
                      | Some block_end \<Rightarrow> block_end > position)
                else False))"


section \<open>The rename engine (refactor_tool_advanced.py)\<close>

type_synonym file_system = "string \<Rightarrow> file_state"

text \<open>
  \<open>find_all_references\<close> runs the editor adapter in a child process, which loads the file
  \<open>tags\<close> of the workspace. The child is modelled as a call; when it ends with an
  exception its exit status is not zero and the list is empty. A path is identified with
  the string the tag table gives for it.
\<close>

definition find_all_references :: "file_system \<Rightarrow> string \<Rightarrow> reference list" where
  "find_all_references fs symbol =
     (case load_tags (fs ''tags'') of
        Inl e \<Rightarrow> []
      | Inr tags \<Rightarrow> cursor_find_all_references tags symbol)"

record occurrence =
  occ_file :: string
  occ_line :: nat
  occ_column :: nat
  occ_context :: string
  occ_match :: string

text \<open>The inner \<open>while True\<close> loop of \<open>find_symbol_occurrences\<close> over one line.\<close>

function occ_loop :: "string \<Rightarrow> nat \<Rightarrow> string \<Rightarrow> string \<Rightarrow> nat \<Rightarrow> occurrence list" where
  "occ_loop file line_num line symbol start_pos =
     (case py_find line symbol start_pos of
        None \<Rightarrow> []
      | Some pos \<Rightarrow>
          (if \<not> is_in_comment line pos
           then [\<lparr>occ_file = file, occ_line = line_num, occ_column = pos + 1,
                   occ_context = py_strip line, occ_match = symbol\<rparr>]
           else [])
          @ occ_loop file line_num line symbol (pos + 1))"
  by pat_completeness auto
termination
proof (relation "measure (\<lambda>(file, line_num, line, symbol, start_pos). Suc (length line) - start_pos)")
  show "wf (measure (\<lambda>(file :: string, line_num :: nat, line :: string, symbol :: string,
                        start_pos). Suc (length line) - start_pos))"
    by simp
next
  fix path :: string and line_num :: nat and line symbol :: string and start_pos pos :: nat
  assume found: "py_find line symbol start_pos = Some pos"
  have bound: "i \<le> length s" if "find_first symbol s = Some i" for s i
    using that by (induction s arbitrary: i) (auto split: if_splits)
  from found obtain i where "find_first symbol (drop start_pos line) = Some i"
    and "pos = i + start_pos" and "start_pos \<le> length line"
    by (auto simp: py_find_def split: if_splits)
  with bound [of "drop start_pos line" i] have "start_pos \<le> pos" "pos \<le> length line"
    by auto
  then show "((path, line_num, line, symbol, pos + 1), (path, line_num, line, symbol, start_pos))
      \<in> measure (\<lambda>(file, line_num, line, symbol, start_pos). Suc (length line) - start_pos)"
    by simp
qed

declare occ_loop.simps [simp del]

text \<open>The loop over \<open>enumerate(lines, 1)\<close>.\<close>

fun scan_lines :: "string \<Rightarrow> string \<Rightarrow> nat \<Rightarrow> string list \<Rightarrow> occurrence list" where
  "scan_lines file symbol line_num [] = []"
| "scan_lines file symbol line_num (line # lines) =
     (if is_comment_line line then []
      else if py_in symbol line then occ_loop file line_num line symbol 0
      else [])
     @ scan_lines file symbol (Suc line_num) lines"

text \<open>
  One reference: a file that does not exist is passed over, one that cannot be read
  raises inside the \<open>try\<close> and contributes nothing.
\<close>

definition scan_file :: "file_system \<Rightarrow> string \<Rightarrow> string \<Rightarrow> occurrence list" where
  "scan_file fs symbol file =
     (case fs file of
        Missing \<Rightarrow> []
      | Unreadable \<Rightarrow> []
      | Stored w text \<Rightarrow> scan_lines file symbol 1 (py_readlines text))"

fun scan_references :: "file_system \<Rightarrow> string \<Rightarrow> reference list \<Rightarrow> occurrence list" where
  "scan_references fs symbol [] = []"
| "scan_references fs symbol (r # references) =
     scan_file fs symbol (ref_file r) @ scan_references fs symbol references"

definition find_symbol_occurrences :: "file_system \<Rightarrow> string \<Rightarrow> occurrence list" where
  "find_symbol_occurrences fs symbol = scan_references fs symbol (find_all_references fs symbol)"

record change =
  ch_file :: string
  ch_line :: nat
  ch_column :: nat
  ch_old_line :: string
  ch_new_line :: string

record preview =
  pv_old_symbol :: string
  pv_new_symbol :: string
  pv_total_occurrences :: nat
  pv_files_affected :: "string set"
  pv_changes :: "change list"
  pv_skipped_comments :: nat

text \<open>The second loop of \<open>preview_rename\<close>, which counts comment lines with the symbol.\<close>

definition skipped_in_file :: "file_system \<Rightarrow> string \<Rightarrow> string \<Rightarrow> nat" where
  "skipped_in_file fs old_symbol file =
     (case fs file of
        Missing \<Rightarrow> 0
      | Unreadable \<Rightarrow> 0
      | Stored w text \<Rightarrow>
          length (filter (\<lambda>line. py_in old_symbol line \<and> is_comment_line line)
                         (py_readlines text)))"

fun count_skipped :: "file_system \<Rightarrow> string \<Rightarrow> reference list \<Rightarrow> nat" where
  "count_skipped fs old_symbol [] = 0"
| "count_skipped fs old_symbol (r # references) =
     skipped_in_file fs old_symbol (ref_file r) + count_skipped fs old_symbol references"

definition change_of :: "string \<Rightarrow> string \<Rightarrow> occurrence \<Rightarrow> change" where
  "change_of old_symbol new_symbol occ =
     \<lparr>ch_file = occ_file occ, ch_line = occ_line occ, ch_column = occ_column occ,
      ch_old_line = occ_context occ,
      ch_new_line = py_replace (occ_context occ) old_symbol new_symbol\<rparr>"

text \<open>\<open>list(set(...))\<close> has no order of its own: \<open>files_affected\<close> is a set.\<close>

definition preview_rename :: "file_system \<Rightarrow> string \<Rightarrow> string \<Rightarrow> preview" where
  "preview_rename fs old_symbol new_symbol =
     (let occurrences = find_symbol_occurrences fs old_symbol
      in \<lparr>pv_old_symbol = old_symbol,
          pv_new_symbol = new_symbol,
          pv_total_occurrences = length occurrences,
          pv_files_affected = set (map occ_file occurrences),
          pv_changes = map (change_of old_symbol new_symbol) occurrences,
          pv_skipped_comments =
            count_skipped fs old_symbol (find_all_references fs old_symbol)\<rparr>)"

text \<open>
  The \<open>while True\<close> loop of \<open>rename_symbol\<close> over one line. With an empty \<open>old_symbol\<close>
  the position need not advance and the loop need not end: \<open>None\<close> is the run that
  does not return.
\<close>

partial_function (option) rename_loop :: "string \<Rightarrow> string \<Rightarrow> string \<Rightarrow> nat \<Rightarrow> string option" where
  "rename_loop old_symbol new_symbol new_line start_pos =
     (case py_find new_line old_symbol start_pos of
        None \<Rightarrow> Some new_line
      | Some pos \<Rightarrow>
          if \<not> is_in_comment new_line pos
          then rename_loop old_symbol new_symbol
                 (take pos new_line @ new_symbol @ drop (pos + length old_symbol) new_line)
                 (pos + length new_symbol)
          else rename_loop old_symbol new_symbol new_line (pos + 1))"

declare rename_loop.simps [code]

definition rename_line :: "string \<Rightarrow> string \<Rightarrow> string \<Rightarrow> string option" where
  "rename_line old_symbol new_symbol line =
     (if py_in old_symbol line \<and> \<not> is_comment_line line
      then rename_loop old_symbol new_symbol line 0
      else Some line)"

fun rename_lines :: "string \<Rightarrow> string \<Rightarrow> string list \<Rightarrow> string list option" where
  "rename_lines old_symbol new_symbol [] = Some []"
| "rename_lines old_symbol new_symbol (line # lines) =
     (case rename_line old_symbol new_symbol line of
        None \<Rightarrow> None
      | Some new_line \<Rightarrow>
          (case rename_lines old_symbol new_symbol lines of
             None \<Rightarrow> None
           | Some new_lines \<Rightarrow> Some (new_line # new_lines)))"

text \<open>The text written back for a file whose text was \<open>content\<close>.\<close>

definition rename_content :: "string \<Rightarrow> string \<Rightarrow> string \<Rightarrow> string option" where
  "rename_content old_symbol new_symbol content =
     map_option (py_join [NL]) (rename_lines old_symbol new_symbol (py_split NL content))"

record apply_state =
  as_fs :: file_system
  as_files_changed :: "string set"
  as_changes_made :: nat

text \<open>
  The body of the loop over \<open>preview["changes"]\<close>: an exception of \<open>open\<close> is caught and
  leaves the state as it was.
\<close>

definition apply_change :: "string \<Rightarrow> string \<Rightarrow> apply_state \<Rightarrow> change \<Rightarrow> apply_state option" where
  "apply_change old_symbol new_symbol st c =
     (case as_fs st (ch_file c) of
        Missing \<Rightarrow> Some st
      | Unreadable \<Rightarrow> Some st
      | Stored w content \<Rightarrow>
          (case rename_content old_symbol new_symbol content of
             None \<Rightarrow> None
           | Some new_content \<Rightarrow>
               if w
               then Some \<lparr>as_fs = (as_fs st)(ch_file c := Stored w new_content),
                          as_files_changed = insert (ch_file c) (as_files_changed st),
                          as_changes_made = as_changes_made st + 1\<rparr>
               else Some st))"

fun apply_changes :: "string \<Rightarrow> string \<Rightarrow> apply_state \<Rightarrow> change list \<Rightarrow> apply_state option" where
  "apply_changes old_symbol new_symbol st [] = Some st"
| "apply_changes old_symbol new_symbol st (c # cs) =
     (case apply_change old_symbol new_symbol st c of
        None \<Rightarrow> None
      | Some st' \<Rightarrow> apply_changes old_symbol new_symbol st' cs)"

datatype rename_result =
    Dry_Run preview
  | Completed "string set" nat preview

fun files_changed :: "rename_result \<Rightarrow> string set" where
  "files_changed (Dry_Run p) = {}"
| "files_changed (Completed fc n p) = fc"

text \<open>\<open>rename_symbol\<close> returns its result; the file system after it is the second component.\<close>

definition rename_symbol ::
  "file_system \<Rightarrow> string \<Rightarrow> string \<Rightarrow> bool \<Rightarrow> (rename_result \<times> file_system) option" where
  "rename_symbol fs old_symbol new_symbol dry_run =
     (let p = preview_rename fs old_symbol new_symbol
      in if dry_run then Some (Dry_Run p, fs)
         else (case apply_changes old_symbol new_symbol
                      \<lparr>as_fs = fs, as_files_changed = {}, as_changes_made = 0\<rparr> (pv_changes p) of
                 None \<Rightarrow> None
               | Some st \<Rightarrow>
                   Some (Completed (as_files_changed st) (as_changes_made st) p, as_fs st)))"

text \<open>
  The invariant of the replacement loop on a line with an open block comment: every
  \<open>*/\<close> of the line lies before the scan position and before the first \<open>/*\<close>.
\<close>

definition block_open :: "string \<Rightarrow> nat \<Rightarrow> bool" where
  "block_open nl sp =
     (\<forall>e. occurs_at ''*/'' nl e \<longrightarrow>
        e < sp \<and> (\<forall>b. py_find nl ''/*'' 0 = Some b \<longrightarrow> e < b))"

section \<open>Example workspaces\<close>

text \<open>A tag with the fields that the queries read, for the examples.\<close>

definition tag_of :: "string \<Rightarrow> string \<Rightarrow> int \<Rightarrow> string \<Rightarrow> nat \<Rightarrow> tag" where
  "tag_of n f l ty k =
     \<lparr>tag_name = n, tag_filename = f, tag_excmd = [], tag_kind = ''function'', tag_line = l,
      tag_typeref = ty, tag_scope = [], tag_access = [], tag_signature = [],
      tag_line_number = k\<rparr>"

text \<open>
  The tag table and the workspace of the end-to-end example: one entry for \<open>foo\<close> and
  the file \<open>src/a.c\<close> of one line.
\<close>

definition example_tags :: string where
  "example_tags =
     py_join [TAB] [''foo'', ''src/a.c'', ''10'' @ TERMINATOR, ''kind:function'', ''line:10'']"

definition example_fs :: file_system where
  "example_fs path =
     (if path = ''tags'' then Stored True example_tags
      else if path = ''src/a.c'' then Stored True ''int foo() { return 1; } // calls foo''
      else Missing)"

text \<open>A workspace whose tag table names the file \<open>a.c\<close> in two records.\<close>

definition twice_fs :: file_system where
  "twice_fs path =
     (if path = ''tags''
      then Stored True (py_join [NL] [py_join [TAB] [''foo'', ''a.c'', ''1''],
                                      py_join [TAB] [''foobar'', ''a.c'', ''2'']])
      else if path = ''a.c'' then Stored True ''x = foo;''
      else Missing)"

section \<open>Properties of the string operations\<close>

lemma occurs_at_0: "occurs_at sub s 0 \<longleftrightarrow> prefix sub s"
proof
  assume "occurs_at sub s 0"
  then have "take (length sub) s = sub" by (simp add: occurs_at_def)
  then show "prefix sub s" by (metis take_is_prefix)
next
  assume "prefix sub s"
  then obtain zs where "s = sub @ zs" by (auto simp: prefix_def)
  then show "occurs_at sub s 0" by (simp add: occurs_at_def)
qed

lemma occurs_at_Suc: "occurs_at sub (c # cs) (Suc j) \<longleftrightarrow> occurs_at sub cs j"
  by (simp add: occurs_at_def)

lemma occurs_at_Nil: "occurs_at sub [] j \<longleftrightarrow> sub = [] \<and> j = 0"
  by (auto simp: occurs_at_def)

lemma occurs_at_drop: "start \<le> length s \<Longrightarrow> occurs_at sub (drop start s) i \<longleftrightarrow> occurs_at sub s (i + start)"
  by (auto simp: occurs_at_def add.commute)

lemma occurs_at_bound: "occurs_at sub s i \<Longrightarrow> i + length sub \<le> length s"
  by (simp add: occurs_at_def)

lemma find_first_Some:
  "find_first sub s = Some i \<longleftrightarrow> occurs_at sub s i \<and> (\<forall>j<i. \<not> occurs_at sub s j)"
proof (induction s arbitrary: i)
  case Nil
  show ?case by (auto simp: occurs_at_Nil)
next
  case (Cons c cs)
  show ?case
  proof (cases "prefix sub (c # cs)")
    case True
    then have z: "occurs_at sub (c # cs) 0" by (simp add: occurs_at_0)
    show ?thesis
    proof
      assume "find_first sub (c # cs) = Some i"
      with True have "i = 0" by simp
      with z show "occurs_at sub (c # cs) i \<and> (\<forall>j<i. \<not> occurs_at sub (c # cs) j)" by simp
    next
      assume a: "occurs_at sub (c # cs) i \<and> (\<forall>j<i. \<not> occurs_at sub (c # cs) j)"
      with z have "i = 0" by (cases i) auto
      with True show "find_first sub (c # cs) = Some i" by simp
    qed
  next
    case False
    then have nz: "\<not> occurs_at sub (c # cs) 0" by (simp add: occurs_at_0)
    show ?thesis
    proof
      assume "find_first sub (c # cs) = Some i"
      with False obtain k where k: "find_first sub cs = Some k" "i = Suc k" by auto
      with Cons.IH [of k] have "occurs_at sub cs k" "\<forall>j<k. \<not> occurs_at sub cs j" by auto
      with nz k show "occurs_at sub (c # cs) i \<and> (\<forall>j<i. \<not> occurs_at sub (c # cs) j)"
        by (auto simp: occurs_at_Suc less_Suc_eq_0_disj)
    next
      assume a: "occurs_at sub (c # cs) i \<and> (\<forall>j<i. \<not> occurs_at sub (c # cs) j)"
      with nz obtain k where k: "i = Suc k" by (cases i) auto
      with a have "occurs_at sub cs k" by (simp add: occurs_at_Suc)
      moreover have "\<forall>j<k. \<not> occurs_at sub cs j"
      proof (intro allI impI)
        fix j assume "j < k"
        with k a have "\<not> occurs_at sub (c # cs) (Suc j)" by auto
        then show "\<not> occurs_at sub cs j" by (simp add: occurs_at_Suc)
      qed
      ultimately have "find_first sub cs = Some k" using Cons.IH [of k] by simp
      with False k show "find_first sub (c # cs) = Some i" by simp
    qed
  qed
qed

lemma find_first_None: "find_first sub s = None \<longleftrightarrow> (\<forall>j. \<not> occurs_at sub s j)"
proof
  assume n: "find_first sub s = None"
  show "\<forall>j. \<not> occurs_at sub s j"
  proof (rule ccontr)
    assume "\<not> (\<forall>j. \<not> occurs_at sub s j)"
    then obtain j where "occurs_at sub s j" by auto
    then obtain i where "occurs_at sub s i \<and> (\<forall>j<i. \<not> occurs_at sub s j)"
      using exists_least_iff [of "occurs_at sub s"] by auto
    then have "find_first sub s = Some i" by (simp add: find_first_Some)
    with n show False by simp
  qed
next
  assume "\<forall>j. \<not> occurs_at sub s j"
  then show "find_first sub s = None"
    by (cases "find_first sub s") (auto simp: find_first_Some)
qed

lemma py_find_Some:
  "py_find s sub start = Some i \<longleftrightarrow>
     start \<le> i \<and> occurs_at sub s i \<and> (\<forall>j. start \<le> j \<and> j < i \<longrightarrow> \<not> occurs_at sub s j)"
proof (cases "length s < start")
  case True
  then have "\<not> (start \<le> i \<and> occurs_at sub s i)" by (auto simp: occurs_at_def)
  with True show ?thesis by (auto simp: py_find_def)
next
  case False
  then have le: "start \<le> length s" by simp
  show ?thesis
  proof
    assume "py_find s sub start = Some i"
    with False obtain k where k: "find_first sub (drop start s) = Some k" "i = k + start"
      by (auto simp: py_find_def)
    then have a: "occurs_at sub (drop start s) k" and b: "\<forall>j<k. \<not> occurs_at sub (drop start s) j"
      by (auto simp: find_first_Some)
    have "\<not> occurs_at sub s j" if "start \<le> j" "j < i" for j
    proof -
      from that k have "j - start < k" by auto
      with b have "\<not> occurs_at sub (drop start s) (j - start)" by simp
      with le that show ?thesis by (simp add: occurs_at_drop)
    qed
    with a k le show "start \<le> i \<and> occurs_at sub s i \<and> (\<forall>j. start \<le> j \<and> j < i \<longrightarrow> \<not> occurs_at sub s j)"
      by (auto simp: occurs_at_drop)
  next
    assume a: "start \<le> i \<and> occurs_at sub s i \<and> (\<forall>j. start \<le> j \<and> j < i \<longrightarrow> \<not> occurs_at sub s j)"
    then have "occurs_at sub (drop start s) (i - start)" using le by (simp add: occurs_at_drop)
    moreover have "\<forall>j<i - start. \<not> occurs_at sub (drop start s) j"
      using a le by (auto simp: occurs_at_drop)
    ultimately have "find_first sub (drop start s) = Some (i - start)"
      by (simp add: find_first_Some)
    with False a show "py_find s sub start = Some i" by (simp add: py_find_def)
  qed
qed

lemma py_find_None:
  "py_find s sub start = None \<longleftrightarrow> (\<forall>j. start \<le> j \<longrightarrow> \<not> occurs_at sub s j)"
proof (cases "length s < start")
  case True
  then show ?thesis by (auto simp: py_find_def occurs_at_def)
next
  case False
  then have le: "start \<le> length s" by simp
  have "(\<forall>j. \<not> occurs_at sub (drop start s) j) \<longleftrightarrow> (\<forall>j. start \<le> j \<longrightarrow> \<not> occurs_at sub s j)"
  proof
    assume a: "\<forall>j. \<not> occurs_at sub (drop start s) j"
    show "\<forall>j. start \<le> j \<longrightarrow> \<not> occurs_at sub s j"
    proof (intro allI impI)
      fix j assume "start \<le> j"
      with a [rule_format, of "j - start"] le show "\<not> occurs_at sub s j"
        by (simp add: occurs_at_drop)
    qed
  next
    assume "\<forall>j. start \<le> j \<longrightarrow> \<not> occurs_at sub s j"
    then show "\<forall>j. \<not> occurs_at sub (drop start s) j" using le by (simp add: occurs_at_drop)
  qed
  with False show ?thesis by (simp add: py_find_def find_first_None)
qed

lemma occurs_at_sublist: "(\<exists>i. occurs_at sub s i) \<longleftrightarrow> sublist sub s"
proof
  assume "\<exists>i. occurs_at sub s i"
  then obtain i where "i + length sub \<le> length s" "take (length sub) (drop i s) = sub"
    by (auto simp: occurs_at_def)
  then have "s = take i s @ sub @ drop (length sub) (drop i s)"
    by (metis append_take_drop_id)
  then show "sublist sub s" unfolding sublist_def by blast
next
  assume "sublist sub s"
  then obtain ps ss where "s = ps @ sub @ ss" by (auto simp: sublist_def)
  then have "occurs_at sub s (length ps)" by (simp add: occurs_at_def)
  then show "\<exists>i. occurs_at sub s i" ..
qed

lemma py_in_sublist: "py_in sub s \<longleftrightarrow> sublist sub s"
  using py_find_None [of s sub 0] by (auto simp: py_in_def occurs_at_sublist [symmetric])

section \<open>The comment classifier\<close>

lemma line_comment_before:
  "(case py_find line ''//'' 0 of None \<Rightarrow> False | Some c \<Rightarrow> c < offset)
     \<longleftrightarrow> (\<exists>i<offset. occurs_at ''//'' line i)"
proof (cases "py_find line ''//'' 0")
  case None
  then have "\<forall>j. \<not> occurs_at ''//'' line j" by (simp add: py_find_None)
  with None show ?thesis by simp
next
  case (Some c)
  then have c: "occurs_at ''//'' line c" "\<forall>j<c. \<not> occurs_at ''//'' line j"
    by (auto simp: py_find_Some)
  show ?thesis
  proof
    assume "case py_find line ''//'' 0 of None \<Rightarrow> False | Some c \<Rightarrow> c < offset"
    with Some c show "\<exists>i<offset. occurs_at ''//'' line i" by auto
  next
    assume "\<exists>i<offset. occurs_at ''//'' line i"
    then obtain i where "i < offset" "occurs_at ''//'' line i" by auto
    with c have "c \<le> i" by (meson not_le)
    with \<open>i < offset\<close> Some show "case py_find line ''//'' 0 of None \<Rightarrow> False | Some c \<Rightarrow> c < offset"
      by simp
  qed
qed

text \<open>A line with an opening and a closing block marker is a comment line.\<close>

lemma sublist_dropWhile:
  "sub \<noteq> [] \<Longrightarrow> \<forall>c \<in> set sub. \<not> Q c \<Longrightarrow> sublist sub (dropWhile Q l) \<longleftrightarrow> sublist sub l"
proof (induction l)
  case Nil
  then show ?case by simp
next
  case (Cons c cs)
  show ?case
  proof (cases "Q c")
    case True
    from Cons.prems obtain x xs where x: "sub = x # xs" "\<not> Q x" by (cases sub) auto
    with True have "\<not> prefix sub (c # cs)" by auto
    with True Cons show ?thesis by (simp add: sublist_Cons_right)
  next
    case False
    then show ?thesis by simp
  qed
qed

lemma py_in_strip:
  assumes "sub \<noteq> []" and "\<forall>c \<in> set sub. \<not> is_space c"
  shows "py_in sub (py_strip l) \<longleftrightarrow> py_in sub l"
proof -
  from assms have r: "rev sub \<noteq> []" "\<forall>c \<in> set (rev sub). \<not> is_space c" by simp_all
  have "sublist sub (py_strip l) \<longleftrightarrow> sublist (rev sub) (dropWhile is_space (rev (dropWhile is_space l)))"
    unfolding py_strip_def by (metis sublist_rev rev_rev_ident)
  also have "\<dots> \<longleftrightarrow> sublist (rev sub) (rev (dropWhile is_space l))"
    by (rule sublist_dropWhile [OF r])
  also have "\<dots> \<longleftrightarrow> sublist sub (dropWhile is_space l)" by simp
  also have "\<dots> \<longleftrightarrow> sublist sub l" by (rule sublist_dropWhile [OF assms])
  finally show ?thesis by (simp add: py_in_sublist)
qed

lemma closed_block_is_comment_line:
  "py_in ''/*'' line \<Longrightarrow> py_in ''*/'' line \<Longrightarrow> is_comment_line line"
proof -
  have a: "''/*'' \<noteq> [] \<and> (\<forall>c \<in> set ''/*''. \<not> is_space c)" by (simp add: is_space_def)
  have b: "''*/'' \<noteq> [] \<and> (\<forall>c \<in> set ''*/''. \<not> is_space c)" by (simp add: is_space_def)
  assume "py_in ''/*'' line" "py_in ''*/'' line"
  with a b have "py_in ''/*'' (py_strip line)" "py_in ''*/'' (py_strip line)"
    by (simp_all add: py_in_strip)
  then show ?thesis by (simp add: is_comment_line_def)
qed





section \<open>The queries\<close>

lemma set_find_symbols:
  "set (find_symbols tags query kind filename) =
     {t \<in> set tags. \<not> kind_rejects kind t \<and> \<not> filename_rejects filename t
        \<and> sublist (py_lower query) (py_lower (tag_name t))}"
  by (auto simp: find_symbols_def sort_by_file_line_def py_in_sublist)

lemma sorted_find_symbols:
  "sorted (map file_line_key (find_symbols tags query kind filename))"
  unfolding find_symbols_def sort_by_file_line_def file_line_key_def Let_def
  by (rule sorted_sort_key)

lemma kind_rejects_None [simp]: "\<not> kind_rejects None t"
  by (simp add: kind_rejects_def)

lemma filename_rejects_None [simp]: "\<not> filename_rejects None t"
  by (simp add: filename_rejects_def)

text \<open>
  Claim C6. \<open>find_references tags s\<close> is, in the order of the tag table, exactly the
  records \<open>r\<close> of the index such that \<open>s\<close> is a substring of the name of \<open>r\<close> or of
  its type reference (case-sensitive); the cut to 50 is made later, by the adapter.
\<close>

theorem find_references_exact:
  "find_references tags s
     = filter (\<lambda>r. sublist s (tag_name r) \<or> sublist s (tag_typeref r)) tags
   \<and> set (find_references tags s)
     = {r \<in> set tags. sublist s (tag_name r) \<or> sublist s (tag_typeref r)}"
  by (simp add: find_references_def py_in_sublist)

theorem find_references_exact_witness:
  "find_references [tag_of ''foobar'' ''a.c'' 1 [] 1, tag_of ''x'' ''b.c'' 2 ''struct foo'' 2,
                    tag_of ''Foo'' ''c.c'' 3 [] 3] ''foo''
     = [tag_of ''foobar'' ''a.c'' 1 [] 1, tag_of ''x'' ''b.c'' 2 ''struct foo'' 2]"
proof -
  have a: "sublist ''foo'' ''foobar''" by code_simp
  have b: "sublist ''foo'' ''struct foo''" by code_simp
  have c: "\<not> sublist ''foo'' ''x''" by code_simp
  have d: "\<not> sublist ''foo'' ''Foo''" by code_simp
  have e: "\<not> sublist ''foo'' []" by code_simp
  show ?thesis
    using find_references_exact
      [of "[tag_of ''foobar'' ''a.c'' 1 [] 1, tag_of ''x'' ''b.c'' 2 ''struct foo'' 2,
            tag_of ''Foo'' ''c.c'' 3 [] 3]" "''foo''"] a b c d e
    by (simp add: tag_of_def)
qed

text \<open>
  Claim C5. When a record named exactly \<open>s\<close> exists, \<open>find_definition tags s\<close> consists of
  the records named \<open>s\<close>; otherwise it is the result of \<open>find_symbols\<close>, whose records
  contain \<open>s\<close> in their name up to case and are not named \<open>s\<close>. No result, cut to 10
  by the adapter or not, holds records of both kinds.
\<close>

theorem find_definition_exact_or_fallback:
  "((\<exists>t \<in> set tags. tag_name t = s) \<longrightarrow>
      find_definition tags s = filter (\<lambda>t. tag_name t = s) tags
      \<and> (\<forall>r \<in> set (find_definition tags s). r \<in> set tags \<and> tag_name r = s))
   \<and> (\<not> (\<exists>t \<in> set tags. tag_name t = s) \<longrightarrow>
      find_definition tags s = find_symbols tags s None None
      \<and> (\<forall>r \<in> set (find_definition tags s).
            r \<in> set tags \<and> sublist (py_lower s) (py_lower (tag_name r)) \<and> tag_name r \<noteq> s))
   \<and> ((\<forall>r \<in> set (find_definition tags s). tag_name r = s)
        \<or> (\<forall>r \<in> set (find_definition tags s). tag_name r \<noteq> s))
   \<and> ((\<forall>r \<in> set (tool_find_definition tags s). tag_name r = s)
        \<or> (\<forall>r \<in> set (tool_find_definition tags s). tag_name r \<noteq> s))"
proof -
  have ex: "filter (\<lambda>t. tag_name t = s) tags \<noteq> [] \<longleftrightarrow> (\<exists>t \<in> set tags. tag_name t = s)"
    by (simp add: filter_empty_conv)
  have 1: "find_definition tags s = filter (\<lambda>t. tag_name t = s) tags"
    if "\<exists>t \<in> set tags. tag_name t = s"
    using that ex by (simp add: find_definition_def)
  have 2: "find_definition tags s = find_symbols tags s None None"
    if "\<not> (\<exists>t \<in> set tags. tag_name t = s)"
    using that ex by (simp add: find_definition_def)
  have 3: "r \<in> set tags \<and> sublist (py_lower s) (py_lower (tag_name r)) \<and> tag_name r \<noteq> s"
    if "\<not> (\<exists>t \<in> set tags. tag_name t = s)" "r \<in> set (find_definition tags s)" for r
    using that 2 by (auto simp: set_find_symbols)
  have 4: "(\<forall>r \<in> set (find_definition tags s). tag_name r = s)
        \<or> (\<forall>r \<in> set (find_definition tags s). tag_name r \<noteq> s)"
  proof (cases "\<exists>t \<in> set tags. tag_name t = s")
    case True
    then show ?thesis by (simp add: 1)
  next
    case False
    with 3 show ?thesis by blast
  qed
  have 5: "set (tool_find_definition tags s) \<subseteq> set (find_definition tags s)"
    by (simp add: tool_find_definition_def set_take_subset)
  from 4 5 have 6: "(\<forall>r \<in> set (tool_find_definition tags s). tag_name r = s)
        \<or> (\<forall>r \<in> set (tool_find_definition tags s). tag_name r \<noteq> s)"
    by blast
  show ?thesis
  proof (intro conjI impI)
    assume a: "\<exists>t \<in> set tags. tag_name t = s"
    show "find_definition tags s = filter (\<lambda>t. tag_name t = s) tags" by (rule 1 [OF a])
    show "\<forall>r \<in> set (find_definition tags s). r \<in> set tags \<and> tag_name r = s"
      by (simp add: 1 [OF a])
  next
    assume a: "\<not> (\<exists>t \<in> set tags. tag_name t = s)"
    show "find_definition tags s = find_symbols tags s None None" by (rule 2 [OF a])
    show "\<forall>r \<in> set (find_definition tags s).
            r \<in> set tags \<and> sublist (py_lower s) (py_lower (tag_name r)) \<and> tag_name r \<noteq> s"
      using 3 [OF a] by blast
  next
    show "(\<forall>r \<in> set (find_definition tags s). tag_name r = s)
        \<or> (\<forall>r \<in> set (find_definition tags s). tag_name r \<noteq> s)" by (rule 4)
    show "(\<forall>r \<in> set (tool_find_definition tags s). tag_name r = s)
        \<or> (\<forall>r \<in> set (tool_find_definition tags s). tag_name r \<noteq> s)" by (rule 6)
  qed
qed


theorem find_definition_exact_or_fallback_witness:
  "find_definition [tag_of ''foobar'' ''a.c'' 1 [] 1, tag_of ''foo'' ''b.c'' 2 [] 2] ''foo''
     = [tag_of ''foo'' ''b.c'' 2 [] 2]
   \<and> find_definition [tag_of ''foobar'' ''a.c'' 1 [] 1, tag_of ''foo'' ''b.c'' 2 [] 2] ''FOO''
     = find_symbols [tag_of ''foobar'' ''a.c'' 1 [] 1, tag_of ''foo'' ''b.c'' 2 [] 2] ''FOO''
         None None
   \<and> set (find_symbols [tag_of ''foobar'' ''a.c'' 1 [] 1, tag_of ''foo'' ''b.c'' 2 [] 2] ''FOO''
         None None)
     = {tag_of ''foobar'' ''a.c'' 1 [] 1, tag_of ''foo'' ''b.c'' 2 [] 2}"
proof -
  let ?ts = "[tag_of ''foobar'' ''a.c'' 1 [] 1, tag_of ''foo'' ''b.c'' 2 [] 2]"
  have a: "\<exists>t \<in> set ?ts. tag_name t = ''foo''" by (simp add: tag_of_def)
  have b: "\<not> (\<exists>t \<in> set ?ts. tag_name t = ''FOO'')" by (simp add: tag_of_def)
  from find_definition_exact_or_fallback [of ?ts "''foo''"] a
  have "find_definition ?ts ''foo'' = filter (\<lambda>t. tag_name t = ''foo'') ?ts" by blast
  then have 1: "find_definition ?ts ''foo'' = [tag_of ''foo'' ''b.c'' 2 [] 2]"
    by (simp add: tag_of_def)
  from find_definition_exact_or_fallback [of ?ts "''FOO''"] b
  have 2: "find_definition ?ts ''FOO'' = find_symbols ?ts ''FOO'' None None" by blast
  have 3: "set (find_symbols ?ts ''FOO'' None None) = set ?ts" by code_simp
  from 1 2 3 show ?thesis by simp
qed

text \<open>
  Claim C7, as the code has it. The result of \<open>find_symbols\<close> is sorted ascending by
  (file, line), and so is the result of \<open>find_definition\<close> when no record is named
  exactly \<open>s\<close>; when one is, \<open>find_definition\<close> returns the exact matches in the order
  of the tag table.
\<close>

theorem find_symbols_sorted:
  "sorted (map file_line_key (find_symbols tags query kind filename))
   \<and> (\<not> (\<exists>t \<in> set tags. tag_name t = s) \<longrightarrow> sorted (map file_line_key (find_definition tags s)))
   \<and> ((\<exists>t \<in> set tags. tag_name t = s) \<longrightarrow>
        find_definition tags s = filter (\<lambda>t. tag_name t = s) tags)"
proof (intro conjI impI)
  show "sorted (map file_line_key (find_symbols tags query kind filename))"
    by (rule sorted_find_symbols)
next
  assume "\<not> (\<exists>t \<in> set tags. tag_name t = s)"
  then have "filter (\<lambda>t. tag_name t = s) tags = []" by (simp add: filter_empty_conv)
  then have "find_definition tags s = find_symbols tags s None None"
    by (simp add: find_definition_def)
  then show "sorted (map file_line_key (find_definition tags s))"
    by (simp add: sorted_find_symbols)
next
  assume "\<exists>t \<in> set tags. tag_name t = s"
  then have "filter (\<lambda>t. tag_name t = s) tags \<noteq> []" by (simp add: filter_empty_conv)
  then show "find_definition tags s = filter (\<lambda>t. tag_name t = s) tags"
    by (simp add: find_definition_def)
qed

theorem find_symbols_sorted_witness:
  "sorted (map file_line_key
      (find_definition [tag_of ''foo2'' ''b.c'' 1 [] 1, tag_of ''foo1'' ''a.c'' 1 [] 2] ''foo''))
   \<and> find_definition [tag_of ''foo'' ''b.c'' 1 [] 1, tag_of ''foo'' ''a.c'' 1 [] 2] ''foo''
     = [tag_of ''foo'' ''b.c'' 1 [] 1, tag_of ''foo'' ''a.c'' 1 [] 2]"
proof -
  let ?ts = "[tag_of ''foo2'' ''b.c'' 1 [] 1, tag_of ''foo1'' ''a.c'' 1 [] 2]"
  let ?us = "[tag_of ''foo'' ''b.c'' 1 [] 1, tag_of ''foo'' ''a.c'' 1 [] 2]"
  have a: "\<not> (\<exists>t \<in> set ?ts. tag_name t = ''foo'')" by (simp add: tag_of_def)
  have b: "\<exists>t \<in> set ?us. tag_name t = ''foo''" by (simp add: tag_of_def)
  from find_symbols_sorted [of ?ts _ _ _ "''foo''"] a
  have 1: "sorted (map file_line_key (find_definition ?ts ''foo''))" by blast
  from find_symbols_sorted [of ?us _ _ _ "''foo''"] b
  have "find_definition ?us ''foo'' = filter (\<lambda>t. tag_name t = ''foo'') ?us" by blast
  then have 2: "find_definition ?us ''foo'' = ?us" by (simp add: tag_of_def)
  from 1 2 show ?thesis by simp
qed

text \<open>
  Claim C7 as stated fails on two records named \<open>foo\<close>, the first in \<open>b.c\<close>, the
  second in \<open>a.c\<close>: the exact matches come back in table order, which is not sorted.
\<close>

theorem find_definition_sorted_counterexample:
  "find_definition [tag_of ''foo'' ''b.c'' 1 [] 1, tag_of ''foo'' ''a.c'' 1 [] 2] ''foo''
     = [tag_of ''foo'' ''b.c'' 1 [] 1, tag_of ''foo'' ''a.c'' 1 [] 2]
   \<and> \<not> sorted (map file_line_key
        (find_definition [tag_of ''foo'' ''b.c'' 1 [] 1, tag_of ''foo'' ''a.c'' 1 [] 2] ''foo''))"
  by code_simp

section \<open>The tag table parser\<close>

text \<open>Only the fourth part of a tag line is read for extension fields.\<close>

lemma parse_ext_fields_fourth_only: "parse_ext_fields parts = parse_ext_fields (take 4 parts)"
  by (simp add: parse_ext_fields_def)

text \<open>
  Claim C2 at the line of its example: the code reads extension fields from the fourth
  tab-separated part only, so \<open>line:10\<close> in the fifth part is lost and the record has
  line 0.
\<close>

theorem parse_tag_line_drops_fifth_field:
  "parse_tag_line (py_join [TAB] [''n'', ''f'', ''c'', ''kind:function'', ''line:10'']) 1
     = Inr (Some \<lparr>tag_name = ''n'', tag_filename = ''f'', tag_excmd = ''c'',
                   tag_kind = ''function'', tag_line = 0, tag_typeref = [], tag_scope = [],
                   tag_access = [], tag_signature = [], tag_line_number = 1\<rparr>)"
  by code_simp

section \<open>Loading the tag table\<close>

lemma py_split_not_Nil: "py_split sep s \<noteq> []"
  by (induction s) (auto split: list.splits)

lemma parse_tag_line_raises:
  "parse_tag_line ln n = Inl e \<longleftrightarrow>
     e = ValueError \<and> 3 \<le> length (py_split TAB ln) \<and> py_isdigit (line_field ln)
     \<and> \<not> (list_all is_decimal (line_field ln)
            \<and> length (line_field ln) \<le> int_max_str_digits)"
proof (cases "length (py_split TAB ln) < 3")
  case True
  then show ?thesis by (simp add: parse_tag_line_def)
next
  case False
  have "parse_line_field (parse_ext_fields (py_split TAB ln)) = Inl e \<longleftrightarrow>
      e = ValueError \<and> py_isdigit (line_field ln)
      \<and> \<not> (list_all is_decimal (line_field ln)
             \<and> length (line_field ln) \<le> int_max_str_digits)"
    by (auto simp: parse_line_field_def py_int_def line_field_def py_isdigit_def)
  with False show ?thesis
    by (auto simp: parse_tag_line_def Let_def split: sum.splits)
qed

lemma parse_tag_line_malformed:
  "length (py_split TAB ln) < 3 \<Longrightarrow> parse_tag_line ln n = Inr None"
  by (simp add: parse_tag_line_def)

lemma load_loop_skips_malformed:
  "length (py_split TAB (py_strip l)) < 3 \<Longrightarrow>
     load_loop n (l # ls) acc = load_loop (Suc n) ls acc"
  by (simp add: parse_tag_line_malformed Let_def)

lemma load_loop_returns:
  "list_all (\<lambda>l. \<not> int_rejects (py_strip l)) ls \<Longrightarrow> \<exists>tags. load_loop n ls acc = Inr tags"
proof (induction ls arbitrary: n acc)
  case Nil
  then show ?case by simp
next
  case (Cons l ls)
  then have rest: "\<And>n acc. \<exists>tags. load_loop n ls acc = Inr tags" by simp
  from Cons.prems have ok: "\<not> int_rejects (py_strip l)" by simp
  show ?case
  proof (cases "py_startswith (py_strip l) ''!_TAG_''")
    case True
    with rest [of "Suc n" acc] show ?thesis by (simp add: Let_def)
  next
    case False
    with ok have "parse_tag_line (py_strip l) n \<noteq> Inl e" for e
      by (auto simp: parse_tag_line_raises int_rejects_def)
    then obtain r where r: "parse_tag_line (py_strip l) n = Inr r"
      by (cases "parse_tag_line (py_strip l) n") auto
    show ?thesis
    proof (cases r)
      case None
      with False r rest [of "Suc n" acc] show ?thesis by (simp add: Let_def)
    next
      case (Some t)
      with False r rest [of "Suc n" "acc @ [t]"] show ?thesis by (simp add: Let_def)
    qed
  qed
qed

text \<open>The condition is exact: a line that \<open>int\<close> rejects makes the loop raise.\<close>

lemma load_loop_raises:
  "\<not> list_all (\<lambda>l. \<not> int_rejects (py_strip l)) ls \<Longrightarrow> load_loop n ls acc = Inl ValueError"
proof (induction ls arbitrary: n acc)
  case Nil
  then show ?case by simp
next
  case (Cons l ls)
  show ?case
  proof (cases "int_rejects (py_strip l)")
    case True
    then have "parse_tag_line (py_strip l) n = Inl ValueError"
      by (simp add: parse_tag_line_raises int_rejects_def)
    with True show ?thesis by (simp add: int_rejects_def Let_def)
  next
    case False
    with Cons.prems have bad: "\<not> list_all (\<lambda>l. \<not> int_rejects (py_strip l)) ls" by simp
    then have rest: "\<And>n acc. load_loop n ls acc = Inl ValueError" by (rule Cons.IH)
    show ?thesis
    proof (cases "py_startswith (py_strip l) ''!_TAG_''")
      case True
      with rest show ?thesis by (simp add: Let_def)
    next
      case nometa: False
      with False have "parse_tag_line (py_strip l) n \<noteq> Inl e" for e
        by (auto simp: parse_tag_line_raises int_rejects_def)
      then obtain r where r: "parse_tag_line (py_strip l) n = Inr r"
        by (cases "parse_tag_line (py_strip l) n") auto
      with nometa rest show ?thesis by (cases r) (simp_all add: Let_def)
    qed
  qed
qed

text \<open>
  Claim C8, as the code has it. A missing tag table gives the empty record sequence; a
  tag table that exists and cannot be read raises. A line with fewer than three
  tab-separated fields gives no record and no error, and the loop passes over it. A
  readable table loads whenever none of its lines reaches \<open>int\<close> with a string that
  \<open>int\<close> rejects. The queries over the empty index return nothing.
\<close>

theorem load_tags_degrades:
  "load_tags Missing = Inr []
   \<and> load_tags Unreadable = Inl OSError
   \<and> (length (py_split TAB ln) < 3 \<longrightarrow> parse_tag_line ln n = Inr None)
   \<and> (length (py_split TAB (py_strip l)) < 3 \<longrightarrow>
        load_loop n (l # ls) acc = load_loop (Suc n) ls acc)
   \<and> (list_all (\<lambda>l. \<not> int_rejects (py_strip l)) (py_readlines content) \<longrightarrow>
        (\<exists>tags. load_tags (Stored w content) = Inr tags))
   \<and> find_symbols [] q k f = [] \<and> find_definition [] s = [] \<and> find_references [] s = []"
proof (intro conjI impI)
  show "load_tags Missing = Inr []" by (simp add: load_tags_def)
  show "load_tags Unreadable = Inl OSError" by (simp add: load_tags_def)
  show "find_symbols [] q k f = []" by (simp add: find_symbols_def sort_by_file_line_def)
  show "find_definition [] s = []"
    by (simp add: find_definition_def find_symbols_def sort_by_file_line_def)
  show "find_references [] s = []" by (simp add: find_references_def)
next
  assume "length (py_split TAB ln) < 3"
  then show "parse_tag_line ln n = Inr None" by (rule parse_tag_line_malformed)
next
  assume "length (py_split TAB (py_strip l)) < 3"
  then show "load_loop n (l # ls) acc = load_loop (Suc n) ls acc"
    by (rule load_loop_skips_malformed)
next
  assume "list_all (\<lambda>l. \<not> int_rejects (py_strip l)) (py_readlines content)"
  from load_loop_returns [OF this]
  show "\<exists>tags. load_tags (Stored w content) = Inr tags" by (simp add: load_tags_def)
qed

theorem load_tags_degrades_witness:
  "parse_tag_line ''name only'' 7 = Inr None
   \<and> load_loop 1 [''name only'', ''x''] [] = load_loop (Suc 1) [''x''] []
   \<and> (\<exists>tags. load_tags (Stored True example_tags) = Inr tags)
   \<and> (\<exists>tags. load_tags (Stored True (py_join [TAB] [''x'' @ [CHR 0xB2], ''f'', ''c''])) = Inr tags)"
proof -
  have a: "length (py_split TAB ''name only'') < 3" by code_simp
  have b: "length (py_split TAB (py_strip ''name only'')) < 3" by code_simp
  have c: "list_all (\<lambda>l. \<not> int_rejects (py_strip l)) (py_readlines example_tags)"
    by code_simp
  have d: "list_all (\<lambda>l. \<not> int_rejects (py_strip l))
      (py_readlines (py_join [TAB] [''x'' @ [CHR 0xB2], ''f'', ''c'']))"
    by code_simp
  from load_tags_degrades [where ln = "''name only''" and n = 7] a
  have 1: "parse_tag_line ''name only'' 7 = Inr None" by blast
  from load_tags_degrades [where l = "''name only''" and n = 1 and ls = "[''x'']" and acc = "[]"] b
  have 2: "load_loop 1 [''name only'', ''x''] [] = load_loop (Suc 1) [''x''] []" by blast
  from load_tags_degrades [where content = example_tags and w = True] c
  have 3: "\<exists>tags. load_tags (Stored True example_tags) = Inr tags" by blast
  from load_tags_degrades
    [where content = "py_join [TAB] [''x'' @ [CHR 0xB2], ''f'', ''c'']" and w = True] d
  have 4: "\<exists>tags. load_tags (Stored True (py_join [TAB] [''x'' @ [CHR 0xB2], ''f'', ''c'']))
      = Inr tags" by blast
  from 1 2 3 4 show ?thesis by blast
qed

text \<open>
  Claim C8 as stated fails twice. A tag table that exists and cannot be read raises:
  \<open>_load_tags\<close> guards \<open>open\<close> with \<open>os.path.exists\<close> only. And a readable table raises
  when a \<open>line\<close> value passes \<open>isdigit\<close> and is rejected by \<open>int\<close>, as the superscript two
  is.
\<close>

theorem load_tags_unreadable_counterexample:
  "load_tags Unreadable = Inl OSError \<and> load_tags Unreadable \<noteq> Inr []
   \<and> py_isdigit [CHR 0xB2]
   \<and> parse_tag_line (py_join [TAB] [''n'', ''f'', ''c'', ''line:'' @ [CHR 0xB2]]) 1
       = Inl ValueError
   \<and> load_tags (Stored True (py_join [TAB] [''n'', ''f'', ''c'', ''line:'' @ [CHR 0xB2]]))
       = Inl ValueError"
  by code_simp

section \<open>The end-to-end example\<close>

text \<open>
  Claim C1, as the code has it. On the example, \<open>preview_rename\<close> reports exactly one
  occurrence, at line 1 and at the column of the \<open>foo\<close> that follows \<open>int \<close>; the count
  of skipped comments is 0, since the only line is no comment line.
\<close>

theorem preview_example:
  "find_symbol_occurrences example_fs ''foo''
     = [\<lparr>occ_file = ''src/a.c'', occ_line = 1, occ_column = 5,
          occ_context = ''int foo() { return 1; } // calls foo'', occ_match = ''foo''\<rparr>]
   \<and> pv_total_occurrences (preview_rename example_fs ''foo'' ''bar'') = 1
   \<and> map ch_line (pv_changes (preview_rename example_fs ''foo'' ''bar'')) = [1]
   \<and> map ch_column (pv_changes (preview_rename example_fs ''foo'' ''bar'')) = [length ''int '' + 1]
   \<and> pv_skipped_comments (preview_rename example_fs ''foo'' ''bar'') = 0"
  by code_simp

text \<open>
  Claim C1 as stated fails on the example: the count of skipped comments is 0, not 1, and
  the proposed new line has \<open>bar\<close> in the comment too.
\<close>

theorem preview_example_counterexample:
  "pv_skipped_comments (preview_rename example_fs ''foo'' ''bar'') = 0
   \<and> map ch_new_line (pv_changes (preview_rename example_fs ''foo'' ''bar''))
     = [''int bar() { return 1; } // calls bar'']"
  by code_simp

section \<open>Occurrences\<close>

lemma occ_loop_fields:
  "x \<in> set (occ_loop path line_num line symbol start_pos) \<Longrightarrow>
     occ_file x = path \<and> occ_line x = line_num \<and> start_pos < occ_column x"
proof (induction path line_num line symbol start_pos rule: occ_loop.induct)
  case (1 path line_num line symbol start_pos)
  show ?case
  proof (cases "py_find line symbol start_pos")
    case None
    with "1.prems" show ?thesis by (subst (asm) occ_loop.simps) simp
  next
    case (Some pos)
    then have le: "start_pos \<le> pos" by (simp add: py_find_Some)
    from "1.prems" Some
    have "x \<in> set (if \<not> is_in_comment line pos
             then [\<lparr>occ_file = path, occ_line = line_num, occ_column = pos + 1,
                     occ_context = py_strip line, occ_match = symbol\<rparr>] else [])
          \<or> x \<in> set (occ_loop path line_num line symbol (pos + 1))"
      by (subst (asm) occ_loop.simps) auto
    then show ?thesis
    proof
      assume "x \<in> set (if \<not> is_in_comment line pos
             then [\<lparr>occ_file = path, occ_line = line_num, occ_column = pos + 1,
                     occ_context = py_strip line, occ_match = symbol\<rparr>] else [])"
      with le show ?thesis by (auto split: if_splits)
    next
      assume "x \<in> set (occ_loop path line_num line symbol (pos + 1))"
      from "1.IH" [OF Some this] le show ?thesis by auto
    qed
  qed
qed

lemma occ_loop_distinct: "distinct (occ_loop path line_num line symbol start_pos)"
proof (induction path line_num line symbol start_pos rule: occ_loop.induct)
  case (1 path line_num line symbol start_pos)
  show ?case
  proof (cases "py_find line symbol start_pos")
    case None
    then show ?thesis by (subst occ_loop.simps) simp
  next
    case (Some pos)
    have later: "pos + 1 < occ_column x"
      if "x \<in> set (occ_loop path line_num line symbol (pos + 1))" for x
      using occ_loop_fields [OF that] by simp
    have d: "distinct (occ_loop path line_num line symbol (pos + 1))"
      by (rule "1.IH" [OF Some])
    have "\<lparr>occ_file = path, occ_line = line_num, occ_column = pos + 1,
           occ_context = py_strip line, occ_match = symbol\<rparr>
            \<notin> set (occ_loop path line_num line symbol (pos + 1))"
      using later by fastforce
    with d Some show ?thesis
      by (subst occ_loop.simps) simp
  qed
qed

lemma occ_loop_complete:
  "start_pos \<le> p \<Longrightarrow> occurs_at symbol line p \<Longrightarrow> \<not> is_in_comment line p \<Longrightarrow>
     \<lparr>occ_file = path, occ_line = line_num, occ_column = p + 1,
      occ_context = py_strip line, occ_match = symbol\<rparr>
       \<in> set (occ_loop path line_num line symbol start_pos)"
proof (induction path line_num line symbol start_pos rule: occ_loop.induct)
  case (1 path line_num line symbol start_pos)
  from "1.prems" have "py_find line symbol start_pos \<noteq> None"
    by (auto simp: py_find_None)
  then obtain pos where pos: "py_find line symbol start_pos = Some pos" by auto
  then have first: "\<forall>j. start_pos \<le> j \<and> j < pos \<longrightarrow> \<not> occurs_at symbol line j"
    by (simp add: py_find_Some)
  with "1.prems" have "pos \<le> p" by (meson not_le)
  show ?case
  proof (cases "pos = p")
    case True
    with pos "1.prems" show ?thesis by (subst occ_loop.simps) simp
  next
    case False
    with \<open>pos \<le> p\<close> have "pos + 1 \<le> p" by simp
    from "1.IH" [OF pos this "1.prems"(2,3)] pos show ?thesis
      by (subst occ_loop.simps) simp
  qed
qed

lemma scan_lines_fields:
  "x \<in> set (scan_lines path symbol line_num lines) \<Longrightarrow>
     occ_file x = path \<and> line_num \<le> occ_line x"
proof (induction lines arbitrary: line_num)
  case Nil
  then show ?case by simp
next
  case (Cons line lines)
  from Cons.prems
  have "x \<in> set (occ_loop path line_num line symbol 0)
        \<or> x \<in> set (scan_lines path symbol (Suc line_num) lines)"
    by (auto split: if_splits)
  then show ?case
  proof
    assume "x \<in> set (occ_loop path line_num line symbol 0)"
    from occ_loop_fields [OF this] show ?thesis by simp
  next
    assume "x \<in> set (scan_lines path symbol (Suc line_num) lines)"
    from Cons.IH [OF this] show ?thesis by simp
  qed
qed

lemma scan_lines_distinct: "distinct (scan_lines path symbol line_num lines)"
proof (induction lines arbitrary: line_num)
  case Nil
  then show ?case by simp
next
  case (Cons line lines)
  have a: "occ_line x = line_num" if "x \<in> set (occ_loop path line_num line symbol 0)" for x
    using occ_loop_fields [OF that] by simp
  have b: "Suc line_num \<le> occ_line x"
    if "x \<in> set (scan_lines path symbol (Suc line_num) lines)" for x
    using scan_lines_fields [OF that] by simp
  have "set (occ_loop path line_num line symbol 0)
          \<inter> set (scan_lines path symbol (Suc line_num) lines) = {}"
  proof (rule ccontr)
    assume "\<not> ?thesis"
    then obtain x where "x \<in> set (occ_loop path line_num line symbol 0)"
      "x \<in> set (scan_lines path symbol (Suc line_num) lines)" by auto
    with a [of x] b [of x] show False by simp
  qed
  with Cons.IH [of "Suc line_num"] occ_loop_distinct [of path line_num line symbol 0]
  show ?case by simp
qed

lemma scan_lines_complete:
  "i < length lines \<Longrightarrow> \<not> is_comment_line (lines ! i) \<Longrightarrow> occurs_at symbol (lines ! i) p \<Longrightarrow>
   \<not> is_in_comment (lines ! i) p \<Longrightarrow>
     \<lparr>occ_file = path, occ_line = line_num + i, occ_column = p + 1,
      occ_context = py_strip (lines ! i), occ_match = symbol\<rparr>
       \<in> set (scan_lines path symbol line_num lines)"
proof (induction lines arbitrary: line_num i)
  case Nil
  then show ?case by simp
next
  case (Cons line lines)
  show ?case
  proof (cases i)
    case 0
    with Cons.prems have c: "\<not> is_comment_line line" and o: "occurs_at symbol line p"
      and n: "\<not> is_in_comment line p" by simp_all
    from o have "py_in symbol line" by (auto simp: py_in_def py_find_None)
    moreover from occ_loop_complete [OF _ o n, of 0 path line_num]
    have "\<lparr>occ_file = path, occ_line = line_num, occ_column = p + 1,
           occ_context = py_strip line, occ_match = symbol\<rparr>
            \<in> set (occ_loop path line_num line symbol 0)" by simp
    ultimately show ?thesis using c 0 by simp
  next
    case (Suc k)
    with Cons.prems Cons.IH [of k "Suc line_num"] show ?thesis by simp
  qed
qed

lemma scan_file_fields: "x \<in> set (scan_file fs symbol path) \<Longrightarrow> occ_file x = path"
  by (auto simp: scan_file_def split: file_state.splits dest: scan_lines_fields)

lemma scan_file_distinct: "distinct (scan_file fs symbol path)"
  by (simp add: scan_file_def scan_lines_distinct split: file_state.splits)

lemma count_list_distinct: "distinct xs \<Longrightarrow> x \<in> set xs \<Longrightarrow> count_list xs x = 1"
  by (induction xs) auto

lemma count_scan_references:
  "count_list (scan_references fs symbol refs) x
     = length (filter (\<lambda>r. ref_file r = occ_file x) refs)
       * count_list (scan_file fs symbol (occ_file x)) x"
proof (induction refs)
  case Nil
  then show ?case by simp
next
  case (Cons r refs)
  show ?case
  proof (cases "ref_file r = occ_file x")
    case True
    with Cons show ?thesis by simp
  next
    case False
    then have "x \<notin> set (scan_file fs symbol (ref_file r))"
      using scan_file_fields [of x fs symbol "ref_file r"] by auto
    then have "count_list (scan_file fs symbol (ref_file r)) x = 0"
      by (simp add: count_list_0_iff)
    with False Cons show ?thesis by simp
  qed
qed

text \<open>
  Claim C9. \<open>find_symbol_occurrences\<close> scans the file of every reference, without
  removing duplicates: an occurrence record is in the list as many times as there are
  references that name its file, times its count in one scan of that file. One scan
  reports an occurrence once, and it reports every match in a line that is no comment
  line at a position outside a comment; so such a match is in the list once per
  reference that names the file. The preview counts and lists every entry.
\<close>

theorem occurrences_repeat_per_reference:
  "count_list (find_symbol_occurrences fs s) x
     = length (filter (\<lambda>r. ref_file r = occ_file x) (find_all_references fs s))
       * count_list (scan_file fs s (occ_file x)) x
   \<and> distinct (scan_file fs s path)
   \<and> (fs path = Stored w content \<and> i < length (py_readlines content)
       \<and> \<not> is_comment_line (py_readlines content ! i)
       \<and> occurs_at s (py_readlines content ! i) p
       \<and> \<not> is_in_comment (py_readlines content ! i) p \<longrightarrow>
        count_list (find_symbol_occurrences fs s)
          \<lparr>occ_file = path, occ_line = i + 1, occ_column = p + 1,
           occ_context = py_strip (py_readlines content ! i), occ_match = s\<rparr>
          = length (filter (\<lambda>r. ref_file r = path) (find_all_references fs s)))
   \<and> pv_total_occurrences (preview_rename fs s new_symbol)
       = length (find_symbol_occurrences fs s)
   \<and> pv_changes (preview_rename fs s new_symbol)
       = map (change_of s new_symbol) (find_symbol_occurrences fs s)"
proof (intro conjI impI)
  show c: "count_list (find_symbol_occurrences fs s) x
     = length (filter (\<lambda>r. ref_file r = occ_file x) (find_all_references fs s))
       * count_list (scan_file fs s (occ_file x)) x" for x
    by (simp add: find_symbol_occurrences_def count_scan_references)
  show d: "distinct (scan_file fs s path)" for path by (rule scan_file_distinct)
  show "pv_total_occurrences (preview_rename fs s new_symbol)
       = length (find_symbol_occurrences fs s)"
    by (simp add: preview_rename_def Let_def)
  show "pv_changes (preview_rename fs s new_symbol)
       = map (change_of s new_symbol) (find_symbol_occurrences fs s)"
    by (simp add: preview_rename_def Let_def)
  assume a: "fs path = Stored w content \<and> i < length (py_readlines content)
       \<and> \<not> is_comment_line (py_readlines content ! i)
       \<and> occurs_at s (py_readlines content ! i) p
       \<and> \<not> is_in_comment (py_readlines content ! i) p"
  let ?x = "\<lparr>occ_file = path, occ_line = i + 1, occ_column = p + 1,
           occ_context = py_strip (py_readlines content ! i), occ_match = s\<rparr>"
  from a scan_lines_complete [of i "py_readlines content" s p path 1]
  have "?x \<in> set (scan_file fs s path)" by (simp add: scan_file_def)
  with d [of path] have "count_list (scan_file fs s path) ?x = 1"
    by (simp add: count_list_distinct)
  with c [of ?x] show "count_list (find_symbol_occurrences fs s) ?x
          = length (filter (\<lambda>r. ref_file r = path) (find_all_references fs s))"
    by simp
qed


theorem occurrences_repeat_per_reference_witness:
  "map ref_file (find_all_references twice_fs ''foo'') = [''a.c'', ''a.c'']
   \<and> count_list (find_symbol_occurrences twice_fs ''foo'')
        \<lparr>occ_file = ''a.c'', occ_line = 1, occ_column = 5,
         occ_context = ''x = foo;'', occ_match = ''foo''\<rparr> = 2
   \<and> pv_total_occurrences (preview_rename twice_fs ''foo'' ''bar'') = 2"
proof -
  have r: "map ref_file (find_all_references twice_fs ''foo'') = [''a.c'', ''a.c'']"
    by code_simp
  have k: "length (filter (\<lambda>r. ref_file r = ''a.c'') (find_all_references twice_fs ''foo'')) = 2"
    by code_simp
  have h: "twice_fs ''a.c'' = Stored True ''x = foo;'' \<and> 0 < length (py_readlines ''x = foo;'')
       \<and> \<not> is_comment_line (py_readlines ''x = foo;'' ! 0)
       \<and> occurs_at ''foo'' (py_readlines ''x = foo;'' ! 0) 4
       \<and> \<not> is_in_comment (py_readlines ''x = foo;'' ! 0) 4"
    by code_simp
  have l: "py_readlines ''x = foo;'' ! 0 = ''x = foo;''" by code_simp
  have s: "py_strip ''x = foo;'' = ''x = foo;''" by code_simp
  from occurrences_repeat_per_reference
    [where fs = twice_fs and s = "''foo''" and path = "''a.c''" and w = True
       and content = "''x = foo;''" and i = 0 and p = 4 and new_symbol = "''bar''"] h
  have 1: "count_list (find_symbol_occurrences twice_fs ''foo'')
          \<lparr>occ_file = ''a.c'', occ_line = 0 + 1, occ_column = 4 + 1,
           occ_context = py_strip (py_readlines ''x = foo;'' ! 0), occ_match = ''foo''\<rparr>
          = length (filter (\<lambda>r. ref_file r = ''a.c'') (find_all_references twice_fs ''foo''))"
    and 2: "pv_total_occurrences (preview_rename twice_fs ''foo'' ''bar'')
       = length (find_symbol_occurrences twice_fs ''foo'')"
    by blast+
  have 3: "length (find_symbol_occurrences twice_fs ''foo'') = 2" by code_simp
  from 1 2 3 k l s r show ?thesis by simp
qed

section \<open>Applying a rename\<close>

lemma py_find_bounds:
  "py_find s sub start = Some pos \<Longrightarrow> start \<le> pos \<and> pos + length sub \<le> length s"
  by (simp add: py_find_Some occurs_at_def)

lemma rename_loop_returns:
  "old_symbol \<noteq> [] \<Longrightarrow> \<exists>r. rename_loop old_symbol new_symbol new_line start_pos = Some r"
proof (induction "length new_line - start_pos" arbitrary: new_line start_pos rule: less_induct)
  case less
  show ?case
  proof (cases "py_find new_line old_symbol start_pos")
    case None
    then show ?thesis by (subst rename_loop.simps) simp
  next
    case (Some pos)
    from py_find_bounds [OF Some] less.prems
    have b: "start_pos \<le> pos" "pos + length old_symbol \<le> length new_line"
      "0 < length old_symbol" by auto
    show ?thesis
    proof (cases "is_in_comment new_line pos")
      case True
      from b have "length new_line - (pos + 1) < length new_line - start_pos" by linarith
      from less.hyps [OF this less.prems]
      obtain r where "rename_loop old_symbol new_symbol new_line (pos + 1) = Some r" by auto
      with Some True show ?thesis by (subst rename_loop.simps) simp
    next
      case False
      let ?nl = "take pos new_line @ new_symbol @ drop (pos + length old_symbol) new_line"
      from b have "length ?nl = pos + length new_symbol + (length new_line - (pos + length old_symbol))"
        by simp
      with b have "length ?nl - (pos + length new_symbol) < length new_line - start_pos"
        by linarith
      from less.hyps [OF this less.prems]
      obtain r where "rename_loop old_symbol new_symbol ?nl (pos + length new_symbol) = Some r"
        by auto
      with Some False show ?thesis by (subst rename_loop.simps) simp
    qed
  qed
qed

text \<open>With both symbols empty the loop finds a match at position 0 for ever.\<close>

lemma rename_loop_empty_symbols_diverge: "rename_loop [] [] ''a'' 0 = None"
proof (cases "rename_loop [] [] ''a'' 0")
  case None
  then show ?thesis .
next
  case (Some y)
  have f: "py_find ''a'' [] 0 = Some 0" by code_simp
  have c: "\<not> is_in_comment ''a'' 0" by code_simp
  have "\<not> (old' = [] \<and> new' = [] \<and> nl = ''a'' \<and> sp = 0)"
    if "rename_loop old' new' nl sp = Some r" for old' new' nl sp r
  proof (rule rename_loop.raw_induct [where P = "\<lambda>old' new' nl sp r.
          \<not> (old' = [] \<and> new' = [] \<and> nl = ''a'' \<and> sp = 0)", OF _ that])
    fix rec :: "string \<Rightarrow> string \<Rightarrow> string \<Rightarrow> nat \<Rightarrow> string option"
    fix old' new' nl :: string and sp :: nat and y :: string
    assume IH: "\<And>old' new' nl sp y. rec old' new' nl sp = Some y \<Longrightarrow>
        \<not> (old' = [] \<and> new' = [] \<and> nl = ''a'' \<and> sp = 0)"
    assume body: "(case py_find nl old' sp of
        None \<Rightarrow> Some nl
      | Some pos \<Rightarrow>
          if \<not> is_in_comment nl pos
          then rec old' new' (take pos nl @ new' @ drop (pos + length old') nl)
                 (pos + length new')
          else rec old' new' nl (pos + 1)) = Some y"
    show "\<not> (old' = [] \<and> new' = [] \<and> nl = ''a'' \<and> sp = 0)"
    proof
      assume a: "old' = [] \<and> new' = [] \<and> nl = ''a'' \<and> sp = 0"
      with body f c have "rec [] [] ''a'' 0 = Some y" by simp
      from IH [OF this] show False by simp
    qed
  qed
  from this [OF Some] show ?thesis by simp
qed

lemma rename_line_returns:
  "old_symbol \<noteq> [] \<Longrightarrow> \<exists>r. rename_line old_symbol new_symbol line = Some r"
  by (simp add: rename_line_def rename_loop_returns)

lemma rename_lines_returns:
  "old_symbol \<noteq> [] \<Longrightarrow> \<exists>r. rename_lines old_symbol new_symbol lines = Some r"
proof (induction lines)
  case Nil
  then show ?case by simp
next
  case (Cons line lines)
  from rename_line_returns [OF Cons.prems, of new_symbol line]
  obtain l where "rename_line old_symbol new_symbol line = Some l" by auto
  moreover from Cons obtain ls where "rename_lines old_symbol new_symbol lines = Some ls"
    by auto
  ultimately show ?case by simp
qed

lemma rename_content_returns:
  "old_symbol \<noteq> [] \<Longrightarrow> \<exists>r. rename_content old_symbol new_symbol content = Some r"
  using rename_lines_returns [of old_symbol new_symbol "py_split NL content"]
  by (auto simp: rename_content_def)

lemma apply_change_returns:
  "old_symbol \<noteq> [] \<Longrightarrow> \<exists>st'. apply_change old_symbol new_symbol st c = Some st'"
proof (cases "as_fs st (ch_file c)")
  case Missing
  then show ?thesis by (simp add: apply_change_def)
next
  case Unreadable
  then show ?thesis by (simp add: apply_change_def)
next
  case (Stored w content)
  assume "old_symbol \<noteq> []"
  from rename_content_returns [OF this, of new_symbol content]
  obtain r where "rename_content old_symbol new_symbol content = Some r" by auto
  with Stored show ?thesis by (simp add: apply_change_def)
qed

lemma apply_changes_returns:
  "old_symbol \<noteq> [] \<Longrightarrow> \<exists>st'. apply_changes old_symbol new_symbol st cs = Some st'"
proof (induction cs arbitrary: st)
  case Nil
  then show ?case by simp
next
  case (Cons c cs)
  from apply_change_returns [OF Cons.prems, of new_symbol st c]
  obtain st1 where "apply_change old_symbol new_symbol st c = Some st1" by auto
  with Cons.IH [OF Cons.prems, of st1] show ?case by simp
qed

lemma apply_change_files:
  "apply_change old_symbol new_symbol st c = Some st' \<Longrightarrow>
     as_files_changed st' \<subseteq> insert (ch_file c) (as_files_changed st)"
  by (auto simp: apply_change_def split: file_state.splits option.splits if_splits)

lemma apply_changes_files:
  "apply_changes old_symbol new_symbol st cs = Some st' \<Longrightarrow>
     as_files_changed st' \<subseteq> as_files_changed st \<union> ch_file ` set cs"
proof (induction cs arbitrary: st)
  case Nil
  then show ?case by simp
next
  case (Cons c cs)
  from Cons.prems obtain st1 where 1: "apply_change old_symbol new_symbol st c = Some st1"
    and 2: "apply_changes old_symbol new_symbol st1 cs = Some st'"
    by (auto split: option.splits)
  from apply_change_files [OF 1] Cons.IH [OF 2] show ?case by auto
qed

lemma preview_change_files:
  "ch_file ` set (pv_changes (preview_rename fs old_symbol new_symbol))
     = pv_files_affected (preview_rename fs old_symbol new_symbol)"
  by (auto simp: preview_rename_def Let_def change_of_def image_iff)

text \<open>
  Claim C4. With a symbol to replace that is not empty, \<open>rename_symbol\<close> without
  dry run returns; and whenever it returns, the files it reports as changed are among
  \<open>files_affected\<close> of the preview over the same file system.
\<close>

theorem files_changed_subset_files_affected:
  "(old_symbol \<noteq> [] \<longrightarrow> (\<exists>r fs'. rename_symbol fs old_symbol new_symbol False = Some (r, fs')))
   \<and> (rename_symbol fs old_symbol new_symbol False = Some (r, fs') \<longrightarrow>
        files_changed r \<subseteq> pv_files_affected (preview_rename fs old_symbol new_symbol))"
proof (intro conjI impI)
  assume "old_symbol \<noteq> []"
  from apply_changes_returns [OF this]
  show "\<exists>r fs'. rename_symbol fs old_symbol new_symbol False = Some (r, fs')"
    by (simp add: rename_symbol_def Let_def split: option.splits)
next
  assume a: "rename_symbol fs old_symbol new_symbol False = Some (r, fs')"
  let ?p = "preview_rename fs old_symbol new_symbol"
  from a obtain st where st: "apply_changes old_symbol new_symbol
        \<lparr>as_fs = fs, as_files_changed = {}, as_changes_made = 0\<rparr> (pv_changes ?p) = Some st"
    and r: "r = Completed (as_files_changed st) (as_changes_made st) ?p"
    by (auto simp: rename_symbol_def Let_def split: option.splits)
  from apply_changes_files [OF st] have "as_files_changed st \<subseteq> ch_file ` set (pv_changes ?p)"
    by simp
  with r show "files_changed r \<subseteq> pv_files_affected ?p"
    by (simp add: preview_change_files)
qed

theorem files_changed_subset_files_affected_witness:
  "rename_symbol example_fs ''foo'' ''bar'' False
     = Some (Completed {''src/a.c''} 1 (preview_rename example_fs ''foo'' ''bar''),
             example_fs(''src/a.c'' := Stored True ''int bar() { return 1; } // calls foo''))
   \<and> {''src/a.c''} \<subseteq> pv_files_affected (preview_rename example_fs ''foo'' ''bar'')"
proof -
  let ?r = "Completed {''src/a.c''} 1 (preview_rename example_fs ''foo'' ''bar'')"
  let ?fs = "example_fs(''src/a.c'' := Stored True ''int bar() { return 1; } // calls foo'')"
  have c: "pv_changes (preview_rename example_fs ''foo'' ''bar'')
      = [\<lparr>ch_file = ''src/a.c'', ch_line = 1, ch_column = 5,
           ch_old_line = ''int foo() { return 1; } // calls foo'',
           ch_new_line = ''int bar() { return 1; } // calls bar''\<rparr>]"
    by code_simp
  have f: "example_fs ''src/a.c'' = Stored True ''int foo() { return 1; } // calls foo''"
    by code_simp
  have n: "rename_content ''foo'' ''bar'' ''int foo() { return 1; } // calls foo''
      = Some ''int bar() { return 1; } // calls foo''"
    by code_simp
  have 1: "rename_symbol example_fs ''foo'' ''bar'' False = Some (?r, ?fs)"
    by (simp add: rename_symbol_def Let_def c apply_change_def f n)
  from files_changed_subset_files_affected
    [where fs = example_fs and old_symbol = "''foo''" and new_symbol = "''bar''"
       and r = ?r and fs' = ?fs] 1
  have "files_changed ?r \<subseteq> pv_files_affected (preview_rename example_fs ''foo'' ''bar'')"
    by blast
  with 1 show ?thesis by simp
qed

section \<open>What a rename leaves alone\<close>

lemma py_join_Cons_Cons: "py_join sep ((c # x) # xs) = c # py_join sep (x # xs)"
  by (cases xs) simp_all

lemma py_join_py_split: "py_join [sep] (py_split sep s) = s"
proof (induction s)
  case Nil
  show ?case by simp
next
  case (Cons c cs)
  obtain y ys where y: "py_split sep cs = y # ys"
    using py_split_not_Nil [of sep cs] by (cases "py_split sep cs") auto
  with Cons show ?case by (simp add: py_join_Cons_Cons)
qed

lemma rename_lines_nth:
  "rename_lines old_symbol new_symbol lines = Some new_lines \<Longrightarrow>
     length new_lines = length lines
     \<and> (\<forall>i<length lines. rename_line old_symbol new_symbol (lines ! i) = Some (new_lines ! i))"
proof (induction lines arbitrary: new_lines)
  case Nil
  then show ?case by simp
next
  case (Cons line lines)
  from Cons.prems obtain l ls where l: "rename_line old_symbol new_symbol line = Some l"
    and ls: "rename_lines old_symbol new_symbol lines = Some ls" and n: "new_lines = l # ls"
    by (auto split: option.splits)
  from Cons.IH [OF ls] l n show ?case by (auto simp: nth_Cons split: nat.splits)
qed

lemma occurs_at_nth: "occurs_at sub s i \<Longrightarrow> k < length sub \<Longrightarrow> s ! (i + k) = sub ! k"
proof -
  assume a: "occurs_at sub s i" and k: "k < length sub"
  then have eq: "take (length sub) (drop i s) = sub" and le: "i + length sub \<le> length s"
    by (simp_all add: occurs_at_def)
  have "sub ! k = take (length sub) (drop i s) ! k" by (simp add: eq)
  also have "\<dots> = drop i s ! k" using k by simp
  also have "\<dots> = s ! (i + k)" using le k by simp
  finally show ?thesis by simp
qed

lemma match_avoids_char:
  assumes "occurs_at sub s pos" and "c \<notin> set sub" and "s ! n = c"
  shows "pos + length sub \<le> n \<or> n < pos"
proof (rule ccontr)
  assume "\<not> ?thesis"
  then have k: "n - pos < length sub" and p: "pos \<le> n" by auto
  from occurs_at_nth [OF assms(1) k] p have "s ! n = sub ! (n - pos)" by simp
  with k assms(2,3) show False by (metis nth_mem)
qed

lemma is_in_comment_after_line_comment:
  "occurs_at ''//'' line i \<Longrightarrow> i < pos \<Longrightarrow> is_in_comment line pos"
  using line_comment_before [where line = line and offset = pos] by (auto simp: is_in_comment_def)

lemma replace_in_prefix:
  "pos + n \<le> length P \<Longrightarrow>
     take pos (P @ S) @ x @ drop (pos + n) (P @ S) = (take pos P @ x @ drop (pos + n) P) @ S"
  by simp

lemma rename_loop_keeps_suffix:
  assumes step: "\<And>P sp pos. Inv P sp \<Longrightarrow> py_find (P @ S) old_symbol sp = Some pos \<Longrightarrow>
      (pos + length old_symbol \<le> length P
         \<and> (\<not> is_in_comment (P @ S) pos \<longrightarrow>
              Inv (take pos P @ new_symbol @ drop (pos + length old_symbol) P)
                  (pos + length new_symbol))
         \<and> (is_in_comment (P @ S) pos \<longrightarrow> Inv P (pos + 1)))
      \<or> (is_in_comment (P @ S) pos \<and> Inv P (pos + 1))"
    and run: "rename_loop old_symbol new_symbol (P @ S) start_pos = Some r"
    and inv: "Inv P start_pos"
  shows "\<exists>P'. r = P' @ S"
proof -
  have "old' = old_symbol \<longrightarrow> new' = new_symbol \<longrightarrow>
          (\<forall>P. nl = P @ S \<and> Inv P sp \<longrightarrow> (\<exists>P'. y = P' @ S))"
    if "rename_loop old' new' nl sp = Some y" for old' new' nl sp y
  proof (rule rename_loop.raw_induct [where P = "\<lambda>old' new' nl sp y.
          old' = old_symbol \<longrightarrow> new' = new_symbol \<longrightarrow>
          (\<forall>P. nl = P @ S \<and> Inv P sp \<longrightarrow> (\<exists>P'. y = P' @ S))", OF _ that])
    fix rec :: "string \<Rightarrow> string \<Rightarrow> string \<Rightarrow> nat \<Rightarrow> string option"
    fix old' new' nl :: string and sp :: nat and y :: string
    assume IH: "\<And>old' new' nl sp y. rec old' new' nl sp = Some y \<Longrightarrow>
        old' = old_symbol \<longrightarrow> new' = new_symbol \<longrightarrow>
          (\<forall>P. nl = P @ S \<and> Inv P sp \<longrightarrow> (\<exists>P'. y = P' @ S))"
    assume body: "(case py_find nl old' sp of
        None \<Rightarrow> Some nl
      | Some pos \<Rightarrow>
          if \<not> is_in_comment nl pos
          then rec old' new' (take pos nl @ new' @ drop (pos + length old') nl)
                 (pos + length new')
          else rec old' new' nl (pos + 1)) = Some y"
    show "old' = old_symbol \<longrightarrow> new' = new_symbol \<longrightarrow>
          (\<forall>P. nl = P @ S \<and> Inv P sp \<longrightarrow> (\<exists>P'. y = P' @ S))"
    proof (intro impI allI)
      fix P
      assume o: "old' = old_symbol" and n: "new' = new_symbol" and p: "nl = P @ S \<and> Inv P sp"
      show "\<exists>P'. y = P' @ S"
      proof (cases "py_find nl old' sp")
        case None
        with body p show ?thesis by auto
      next
        case (Some pos)
        with o p have f: "py_find (P @ S) old_symbol sp = Some pos" by simp
        from p have i: "Inv P sp" by simp
        show ?thesis
        proof (cases "is_in_comment nl pos")
          case True
          with body Some have r: "rec old' new' nl (pos + 1) = Some y" by simp
          from step [OF i f] True p have "Inv P (pos + 1)" by auto
          with IH [OF r] o n p show ?thesis by blast
        next
          case False
          let ?P = "take pos P @ new_symbol @ drop (pos + length old_symbol) P"
          from step [OF i f] False p
          have le: "pos + length old_symbol \<le> length P" and i': "Inv ?P (pos + length new_symbol)"
            by auto
          from body Some False o n
          have "rec old' new' (take pos nl @ new_symbol @ drop (pos + length old_symbol) nl)
                  (pos + length new_symbol) = Some y" by simp
          with p replace_in_prefix [OF le, of S new_symbol]
          have r: "rec old' new' (?P @ S) (pos + length new_symbol) = Some y" by simp
          from IH [OF r] o n i' show ?thesis by blast
        qed
      qed
    qed
  qed
  from this [OF run] inv show ?thesis by blast
qed

lemma rename_loop_keeps_line_comment:
  assumes run: "rename_loop old_symbol new_symbol (P @ S) start_pos = Some r"
    and old: "CHR ''/'' \<notin> set old_symbol" and S: "prefix ''//'' S"
  shows "\<exists>P'. r = P' @ S"
proof (rule rename_loop_keeps_suffix [where Inv = "\<lambda>P sp. True", OF _ run])
  show True ..
next
  fix P' :: string and sp pos :: nat
  assume f: "py_find (P' @ S) old_symbol sp = Some pos"
  from S obtain T where T: "S = ''//'' @ T" by (auto simp: prefix_def)
  then have c: "occurs_at ''//'' (P' @ S) (length P')" by (simp add: occurs_at_def)
  from T have "(P' @ S) ! length P' = CHR ''/''" by simp
  from match_avoids_char [OF _ old this, of pos] f
  have "pos + length old_symbol \<le> length P' \<or> length P' < pos" by (simp add: py_find_Some)
  then show "(pos + length old_symbol \<le> length P'
         \<and> (\<not> is_in_comment (P' @ S) pos \<longrightarrow> True)
         \<and> (is_in_comment (P' @ S) pos \<longrightarrow> True))
      \<or> (is_in_comment (P' @ S) pos \<and> True)"
    using is_in_comment_after_line_comment [OF c] by auto
qed


lemma occurs_at_append_left:
  "e + length sub \<le> length A \<Longrightarrow> occurs_at sub (A @ B) e \<longleftrightarrow> occurs_at sub A e"
  by (auto simp: occurs_at_def)

lemma occurs_at_append_right:
  "length A \<le> e \<Longrightarrow> occurs_at sub (A @ B) e \<longleftrightarrow> occurs_at sub B (e - length A)"
  by (auto simp: occurs_at_def)

lemma marker_in_replaced:
  assumes occ: "occurs_at [a, b] (A @ x @ B) e" and a: "a \<notin> set x" and b: "b \<notin> set x"
  shows "e + 2 \<le> length A \<or> length A + length x \<le> e \<or> (x = [] \<and> e + 1 = length A)"
proof -
  from occurs_at_nth [OF occ, of 0] have ea: "(A @ x @ B) ! e = a" by simp
  from occurs_at_nth [OF occ, of 1] have eb: "(A @ x @ B) ! (e + 1) = b" by simp
  have inside: "(A @ x @ B) ! n \<in> set x" if "length A \<le> n" "n < length A + length x" for n
  proof -
    from that have k: "n - length A < length x" by linarith
    from that have "(A @ x @ B) ! n = (x @ B) ! (n - length A)" by (simp add: nth_append)
    also from k have "\<dots> = x ! (n - length A)" by (simp add: nth_append)
    finally show ?thesis using k by simp
  qed
  from inside [of e] ea a have 1: "e < length A \<or> length A + length x \<le> e" by fastforce
  from inside [of "e + 1"] eb b have 2: "e + 1 < length A \<or> length A + length x \<le> e + 1"
    by fastforce
  show ?thesis
  proof (cases "x = []")
    case True
    with 1 2 show ?thesis by auto
  next
    case False
    then have "0 < length x" by simp
    with 1 2 show ?thesis by linarith
  qed
qed

lemma not_in_comment_before_open_block:
  assumes "\<not> is_in_comment line pos" and "py_find line ''/*'' 0 = Some b"
    and "py_find line ''*/'' b = None"
  shows "pos \<le> b"
  using assms by (auto simp: is_in_comment_def split: if_splits)

lemma in_comment_after_open_block:
  assumes "py_find line ''/*'' 0 = Some b" and "py_find line ''*/'' b = None" and "b < pos"
  shows "is_in_comment line pos"
  using assms by (auto simp: is_in_comment_def)

lemma block_open_mono: "block_open nl sp \<Longrightarrow> sp \<le> sp' \<Longrightarrow> block_open nl sp'"
  by (fastforce simp: block_open_def)

lemma block_open_no_end:
  assumes "block_open nl sp" and "py_find nl ''/*'' 0 = Some b"
  shows "py_find nl ''*/'' b = None"
proof -
  have "\<not> occurs_at ''*/'' nl e" if "b \<le> e" for e
    using assms that by (fastforce simp: block_open_def)
  then show ?thesis by (simp add: py_find_None)
qed

lemma block_open_replace:
  assumes inv: "block_open nl sp" and f: "py_find nl old_symbol sp = Some pos"
    and nc: "\<not> is_in_comment nl pos" and op: "py_find nl ''/*'' 0 = Some b"
    and n1: "CHR ''/'' \<notin> set new_symbol" and n2: "CHR ''*'' \<notin> set new_symbol"
  shows "block_open (take pos nl @ new_symbol @ drop (pos + length old_symbol) nl)
           (pos + length new_symbol)"
proof -
  let ?A = "take pos nl" and ?B = "drop (pos + length old_symbol) nl"
  let ?nl = "?A @ new_symbol @ ?B"
  from f have sp: "sp \<le> pos" and le: "pos + length old_symbol \<le> length nl"
    by (simp_all add: py_find_Some occurs_at_def)
  then have lA: "length ?A = pos" by simp
  from block_open_no_end [OF inv op] have ne: "py_find nl ''*/'' b = None" .
  from not_in_comment_before_open_block [OF nc op ne] have pb: "pos \<le> b" .
  from op have first: "\<And>j. occurs_at ''/*'' nl j \<Longrightarrow> b \<le> j"
    by (metis le0 not_le py_find_Some)
  have before: "e < pos" if e: "occurs_at ''*/'' ?nl e" for e
  proof -
    from marker_in_replaced [OF e n2 n1] lA
    have "e < pos \<or> pos + length new_symbol \<le> e" by auto
    moreover have False if ge: "pos + length new_symbol \<le> e"
    proof -
      let ?k = "e - (pos + length new_symbol)"
      from e ge lA have "occurs_at ''*/'' ?B ?k"
        using occurs_at_append_right [of "?A @ new_symbol" e "''*/''" ?B] by simp
      moreover have "nl = take (pos + length old_symbol) nl @ ?B" by simp
      ultimately have "occurs_at ''*/'' nl (?k + (pos + length old_symbol))"
        using occurs_at_append_right
          [of "take (pos + length old_symbol) nl" "?k + (pos + length old_symbol)" "''*/''" ?B]
          le by simp
      with inv have "?k + (pos + length old_symbol) < sp" by (simp add: block_open_def)
      with sp show False by simp
    qed
    ultimately show ?thesis by blast
  qed
  have after: "e < b'" if e: "occurs_at ''*/'' ?nl e" and b': "occurs_at ''/*'' ?nl b'" for e b'
  proof (rule ccontr)
    assume "\<not> e < b'"
    with before [OF e] have b'e: "b' \<le> e" and ep: "e < pos" by simp_all
    from marker_in_replaced [OF b' n1 n2] lA b'e ep
    have "b' + 2 \<le> pos \<or> (new_symbol = [] \<and> b' + 1 = pos)" by auto
    then show False
    proof
      assume "b' + 2 \<le> pos"
      with b' lA have "occurs_at ''/*'' ?A b'"
        using occurs_at_append_left [of b' "''/*''" ?A "new_symbol @ ?B"] by simp
      moreover have "nl = ?A @ drop pos nl" by simp
      ultimately have "occurs_at ''/*'' nl b'"
        using occurs_at_append_left [of b' "''/*''" ?A "drop pos nl"] \<open>b' + 2 \<le> pos\<close> lA
        by simp
      from first [OF this] pb \<open>b' + 2 \<le> pos\<close> show False by simp
    next
      assume "new_symbol = [] \<and> b' + 1 = pos"
      with b'e ep have "e = b'" by simp
      with occurs_at_nth [OF e, of 0] occurs_at_nth [OF b', of 0] show False by simp
    qed
  qed
  show ?thesis
    unfolding block_open_def
  proof (intro allI impI conjI)
    fix e assume e: "occurs_at ''*/'' ?nl e"
    from before [OF e] show "e < pos + length new_symbol" by simp
    fix b' assume "py_find ?nl ''/*'' 0 = Some b'"
    then have "occurs_at ''/*'' ?nl b'" by (simp add: py_find_Some)
    from after [OF e this] show "e < b'" .
  qed
qed

lemma rename_loop_keeps_block_comment:
  assumes run: "rename_loop old_symbol new_symbol (P @ S) 0 = Some r"
    and old: "CHR ''/'' \<notin> set old_symbol"
    and n1: "CHR ''/'' \<notin> set new_symbol" and n2: "CHR ''*'' \<notin> set new_symbol"
    and S: "prefix ''/*'' S" and no_end: "\<forall>e. \<not> occurs_at ''*/'' (P @ S) e"
  shows "\<exists>P'. r = P' @ S"
proof (rule rename_loop_keeps_suffix [where Inv = "\<lambda>P sp. block_open (P @ S) sp", OF _ run])
  from no_end show "block_open (P @ S) 0" by (simp add: block_open_def)
next
  fix P' :: string and sp pos :: nat
  assume inv: "block_open (P' @ S) sp" and f: "py_find (P' @ S) old_symbol sp = Some pos"
  from S obtain T where T: "S = ''/*'' @ T" by (auto simp: prefix_def)
  then have "occurs_at ''/*'' (P' @ S) (length P')" by (simp add: occurs_at_def)
  then have "py_find (P' @ S) ''/*'' 0 \<noteq> None" by (auto simp: py_find_None)
  then obtain b where b: "py_find (P' @ S) ''/*'' 0 = Some b" by auto
  with \<open>occurs_at ''/*'' (P' @ S) (length P')\<close> have bP: "b \<le> length P'"
    by (metis le0 not_le py_find_Some)
  from f have sp: "sp \<le> pos" by (simp add: py_find_Some)
  from block_open_mono [OF inv] sp have next_inv: "block_open (P' @ S) (pos + 1)" by simp
  from T have "(P' @ S) ! length P' = CHR ''/''" by simp
  from match_avoids_char [OF _ old this, of pos] f
  have "pos + length old_symbol \<le> length P' \<or> length P' < pos" by (simp add: py_find_Some)
  then show "(pos + length old_symbol \<le> length P'
         \<and> (\<not> is_in_comment (P' @ S) pos \<longrightarrow>
              block_open ((take pos P' @ new_symbol @ drop (pos + length old_symbol) P') @ S)
                (pos + length new_symbol))
         \<and> (is_in_comment (P' @ S) pos \<longrightarrow> block_open (P' @ S) (pos + 1)))
      \<or> (is_in_comment (P' @ S) pos \<and> block_open (P' @ S) (pos + 1))"
  proof
    assume le: "pos + length old_symbol \<le> length P'"
    have "block_open ((take pos P' @ new_symbol @ drop (pos + length old_symbol) P') @ S)
                (pos + length new_symbol)" if "\<not> is_in_comment (P' @ S) pos"
      using block_open_replace [OF inv f that b n1 n2] replace_in_prefix [OF le, of S new_symbol]
      by simp
    with le next_inv show ?thesis by blast
  next
    assume "length P' < pos"
    with bP have "b < pos" by simp
    from in_comment_after_open_block [OF b block_open_no_end [OF inv b] this] next_inv
    show ?thesis by blast
  qed
qed


lemma rename_line_unchanged:
  "is_comment_line line \<or> \<not> py_in old_symbol line \<Longrightarrow>
     rename_line old_symbol new_symbol line = Some line"
  by (auto simp: rename_line_def)

lemma rename_line_keeps_line_comment:
  assumes run: "rename_line old_symbol new_symbol line = Some r"
    and old: "CHR ''/'' \<notin> set old_symbol" and c: "py_find line ''//'' 0 = Some k"
  shows "suffix (drop k line) r"
proof (cases "py_in old_symbol line \<and> \<not> is_comment_line line")
  case False
  with run have "r = line" by (auto simp: rename_line_def)
  then show ?thesis by (simp add: suffix_drop)
next
  case True
  with run have "rename_loop old_symbol new_symbol (take k line @ drop k line) 0 = Some r"
    by (simp add: rename_line_def)
  moreover from c have "occurs_at ''//'' line k" by (simp add: py_find_Some)
  then have "prefix ''//'' (drop k line)"
    by (metis occurs_at_def take_is_prefix)
  ultimately obtain P' where "r = P' @ drop k line"
    using rename_loop_keeps_line_comment [OF _ old] by blast
  then show ?thesis by (simp add: suffix_def)
qed

lemma rename_line_keeps_block_comment:
  assumes run: "rename_line old_symbol new_symbol line = Some r"
    and old: "CHR ''/'' \<notin> set old_symbol"
    and n1: "CHR ''/'' \<notin> set new_symbol" and n2: "CHR ''*'' \<notin> set new_symbol"
    and b: "py_find line ''/*'' 0 = Some k"
  shows "suffix (drop k line) r"
proof (cases "py_in old_symbol line \<and> \<not> is_comment_line line")
  case False
  with run have "r = line" by (auto simp: rename_line_def)
  then show ?thesis by (simp add: suffix_drop)
next
  case True
  with run have loop: "rename_loop old_symbol new_symbol (take k line @ drop k line) 0 = Some r"
    by (simp add: rename_line_def)
  from b have "py_in ''/*'' line" by (simp add: py_in_def)
  with True closed_block_is_comment_line [of line] have "\<not> py_in ''*/'' line" by blast
  then have no_end: "\<forall>e. \<not> occurs_at ''*/'' (take k line @ drop k line) e"
    by (simp add: py_in_def py_find_None)
  from b have "occurs_at ''/*'' line k" by (simp add: py_find_Some)
  then have "prefix ''/*'' (drop k line)"
    by (metis occurs_at_def take_is_prefix)
  from rename_loop_keeps_block_comment [OF loop old n1 n2 this no_end]
  obtain P' where "r = P' @ drop k line" by blast
  then show ?thesis by (simp add: suffix_def)
qed

lemma apply_change_frame:
  assumes "apply_change old_symbol new_symbol st c = Some st'"
  shows "(\<forall>g. g \<noteq> ch_file c \<longrightarrow> as_fs st' g = as_fs st g)
     \<and> (\<forall>content. as_fs st (ch_file c) = Stored True content \<longrightarrow>
          (\<exists>new_lines. rename_lines old_symbol new_symbol (py_split NL content) = Some new_lines
             \<and> as_fs st' (ch_file c) = Stored True (py_join [NL] new_lines)))"
  using assms
  by (auto simp: apply_change_def rename_content_def
      split: file_state.splits option.splits if_splits)

text \<open>
  Claim C10, as the code has it. A line that is a comment line or does not contain the
  old symbol is returned as it is; \<open>rename_lines\<close> treats every line on its own, and
  the text written to the file is the join of the lines so obtained, every other file
  being left as it was; splitting and joining alone change nothing. In a line, when the
  old symbol has no \<open>/\<close>, the text from the first \<open>//\<close> on is kept; when moreover the
  new symbol has neither \<open>/\<close> nor \<open>*\<close>, the text from the first \<open>/*\<close> on is kept.
\<close>

theorem rename_keeps_comments:
  "((is_comment_line line \<or> \<not> py_in old_symbol line) \<longrightarrow>
      rename_line old_symbol new_symbol line = Some line)
   \<and> (rename_lines old_symbol new_symbol lines = Some new_lines \<longrightarrow>
        length new_lines = length lines
        \<and> (\<forall>i<length lines.
              rename_line old_symbol new_symbol (lines ! i) = Some (new_lines ! i)))
   \<and> py_join [NL] (py_split NL content) = content
   \<and> (apply_change old_symbol new_symbol st c = Some st'
       \<and> as_fs st (ch_file c) = Stored True content \<longrightarrow>
        (\<exists>written. rename_lines old_symbol new_symbol (py_split NL content) = Some written
           \<and> as_fs st' (ch_file c) = Stored True (py_join [NL] written))
        \<and> (\<forall>g. g \<noteq> ch_file c \<longrightarrow> as_fs st' g = as_fs st g))
   \<and> (rename_line old_symbol new_symbol line = Some r \<and> CHR ''/'' \<notin> set old_symbol
       \<and> py_find line ''//'' 0 = Some k \<longrightarrow> suffix (drop k line) r)
   \<and> (rename_line old_symbol new_symbol line = Some r \<and> CHR ''/'' \<notin> set old_symbol
       \<and> CHR ''/'' \<notin> set new_symbol \<and> CHR ''*'' \<notin> set new_symbol
       \<and> py_find line ''/*'' 0 = Some k \<longrightarrow> suffix (drop k line) r)"
proof (intro conjI impI)
  assume "is_comment_line line \<or> \<not> py_in old_symbol line"
  then show "rename_line old_symbol new_symbol line = Some line"
    by (rule rename_line_unchanged)
next
  assume a: "rename_lines old_symbol new_symbol lines = Some new_lines"
  from rename_lines_nth [OF a] show "length new_lines = length lines" by simp
  from rename_lines_nth [OF a]
  show "\<forall>i<length lines. rename_line old_symbol new_symbol (lines ! i) = Some (new_lines ! i)"
    by simp
next
  show "py_join [NL] (py_split NL content) = content" by (rule py_join_py_split)
next
  assume a: "apply_change old_symbol new_symbol st c = Some st'
       \<and> as_fs st (ch_file c) = Stored True content"
  with apply_change_frame [of old_symbol new_symbol st c st']
  show "\<exists>written. rename_lines old_symbol new_symbol (py_split NL content) = Some written
           \<and> as_fs st' (ch_file c) = Stored True (py_join [NL] written)"
    by blast
  from a apply_change_frame [of old_symbol new_symbol st c st']
  show "\<forall>g. g \<noteq> ch_file c \<longrightarrow> as_fs st' g = as_fs st g" by blast
next
  assume "rename_line old_symbol new_symbol line = Some r \<and> CHR ''/'' \<notin> set old_symbol
       \<and> py_find line ''//'' 0 = Some k"
  then show "suffix (drop k line) r" using rename_line_keeps_line_comment by blast
next
  assume "rename_line old_symbol new_symbol line = Some r \<and> CHR ''/'' \<notin> set old_symbol
       \<and> CHR ''/'' \<notin> set new_symbol \<and> CHR ''*'' \<notin> set new_symbol
       \<and> py_find line ''/*'' 0 = Some k"
  then show "suffix (drop k line) r" using rename_line_keeps_block_comment by blast
qed

text \<open>
  Claim C10 as stated fails. With \<open>a*/a\<close> renamed to \<open>/*\<close> in the line
  \<open>a*/aa*/a*/a\<close>, the scan reaches \<open>/*a*/a*/a\<close> at position 2, where the match is
  classified as inside a comment and passed over; the next match overlaps it and is
  replaced, so the text of the match that was passed over changes. With \<open>/\<close> renamed
  to \<open>x\<close> in \<open>a // b / c\<close>, the match at position 7, inside the comment of the line as
  it was read, is replaced.
\<close>

theorem rename_keeps_comments_counterexample:
  "\<not> is_comment_line ''a*/aa*/a*/a'' \<and> py_in ''a*/a'' ''a*/aa*/a*/a''
   \<and> rename_loop ''a*/a'' ''/*'' ''a*/aa*/a*/a'' 0 = rename_loop ''a*/a'' ''/*'' ''/*a*/a*/a'' 2
   \<and> py_find ''/*a*/a*/a'' ''a*/a'' 2 = Some 2 \<and> is_in_comment ''/*a*/a*/a'' 2
   \<and> take 4 (drop 2 ''/*a*/a*/a'') = ''a*/a''
   \<and> rename_line ''a*/a'' ''/*'' ''a*/aa*/a*/a'' = Some ''/*a*//*''
   \<and> take 4 (drop 2 ''/*a*//*'') \<noteq> ''a*/a''
   \<and> \<not> is_comment_line ''a // b / c'' \<and> occurs_at ''/'' ''a // b / c'' 7
   \<and> is_in_comment ''a // b / c'' 7
   \<and> rename_line ''/'' ''x'' ''a // b / c'' = Some ''a xx b x c''"
  by code_simp


theorem rename_keeps_comments_witness:
  "rename_line ''foo'' ''bar'' ''// foo'' = Some ''// foo''
   \<and> rename_line ''foo'' ''bar'' ([''x = foo;'', ''* foo''] ! 1) = Some ([''x = bar;'', ''* foo''] ! 1)
   \<and> suffix (drop 24 ''int foo() { return 1; } // calls foo'')
        ''int bar() { return 1; } // calls foo''
   \<and> suffix (drop 9 ''x = foo; /* foo'') ''x = bar; /* foo''
   \<and> (\<exists>written.
         rename_lines ''foo'' ''bar'' (py_split NL ''int foo() { return 1; } // calls foo'')
           = Some written
         \<and> (example_fs(''src/a.c'' := Stored True ''int bar() { return 1; } // calls foo''))
              ''src/a.c'' = Stored True (py_join [NL] written))
   \<and> (example_fs(''src/a.c'' := Stored True ''int bar() { return 1; } // calls foo'')) ''tags''
       = example_fs ''tags''"
proof -
  let ?L = "''int foo() { return 1; } // calls foo''"
  let ?st = "\<lparr>as_fs = example_fs, as_files_changed = {}, as_changes_made = 0\<rparr>"
  let ?c = "\<lparr>ch_file = ''src/a.c'', ch_line = 1, ch_column = 5, ch_old_line = ?L,
             ch_new_line = ''int bar() { return 1; } // calls bar''\<rparr>"
  let ?st' = "\<lparr>as_fs = example_fs(''src/a.c'' := Stored True ''int bar() { return 1; } // calls foo''),
               as_files_changed = {''src/a.c''}, as_changes_made = 1\<rparr>"
  have h1: "is_comment_line ''// foo'' \<or> \<not> py_in ''foo'' ''// foo''" by code_simp
  have h2: "rename_lines ''foo'' ''bar'' [''x = foo;'', ''* foo''] = Some [''x = bar;'', ''* foo'']"
    by code_simp
  have f: "example_fs ''src/a.c'' = Stored True ?L" by code_simp
  have n: "rename_content ''foo'' ''bar'' ?L = Some ''int bar() { return 1; } // calls foo''"
    by code_simp
  have h4: "apply_change ''foo'' ''bar'' ?st ?c = Some ?st' \<and> as_fs ?st (ch_file ?c) = Stored True ?L"
    by (simp add: apply_change_def f n)
  have h5: "rename_line ''foo'' ''bar'' ?L = Some ''int bar() { return 1; } // calls foo''
      \<and> CHR ''/'' \<notin> set ''foo'' \<and> py_find ?L ''//'' 0 = Some 24"
    by code_simp
  have h6: "rename_line ''foo'' ''bar'' ''x = foo; /* foo'' = Some ''x = bar; /* foo''
      \<and> CHR ''/'' \<notin> set ''foo'' \<and> CHR ''/'' \<notin> set ''bar'' \<and> CHR ''*'' \<notin> set ''bar''
      \<and> py_find ''x = foo; /* foo'' ''/*'' 0 = Some 9"
    by code_simp
  from rename_keeps_comments [where line = "''// foo''" and old_symbol = "''foo''"
      and new_symbol = "''bar''"] h1
  have 1: "rename_line ''foo'' ''bar'' ''// foo'' = Some ''// foo''" by blast
  from rename_keeps_comments [where old_symbol = "''foo''" and new_symbol = "''bar''"
      and lines = "[''x = foo;'', ''* foo'']" and new_lines = "[''x = bar;'', ''* foo'']"] h2
  have "\<forall>i<length [''x = foo;'', ''* foo''].
      rename_line ''foo'' ''bar'' ([''x = foo;'', ''* foo''] ! i)
        = Some ([''x = bar;'', ''* foo''] ! i)" by blast
  moreover have "(1::nat) < length [''x = foo;'', ''* foo'']" by simp
  ultimately have 2: "rename_line ''foo'' ''bar'' ([''x = foo;'', ''* foo''] ! 1)
      = Some ([''x = bar;'', ''* foo''] ! 1)" by blast
  from rename_keeps_comments [where old_symbol = "''foo''" and new_symbol = "''bar''"
      and st = ?st and c = ?c and st' = ?st' and content = ?L] h4
  have 4: "(\<exists>written. rename_lines ''foo'' ''bar'' (py_split NL ?L) = Some written
           \<and> as_fs ?st' (ch_file ?c) = Stored True (py_join [NL] written))
        \<and> (\<forall>g. g \<noteq> ch_file ?c \<longrightarrow> as_fs ?st' g = as_fs ?st g)" by blast
  then have w4a: "\<exists>written. rename_lines ''foo'' ''bar'' (py_split NL ?L) = Some written
     \<and> (example_fs(''src/a.c'' := Stored True ''int bar() { return 1; } // calls foo''))
          ''src/a.c'' = Stored True (py_join [NL] written)" by simp
  from 4 have "''tags'' \<noteq> ch_file ?c \<longrightarrow> as_fs ?st' ''tags'' = as_fs ?st ''tags''" by blast
  then have w4b: "(example_fs(''src/a.c'' := Stored True ''int bar() { return 1; } // calls foo''))
      ''tags'' = example_fs ''tags''" by simp
  from rename_keeps_comments [where old_symbol = "''foo''" and new_symbol = "''bar''"
      and line = ?L and r = "''int bar() { return 1; } // calls foo''" and k = 24] h5
  have 5: "suffix (drop 24 ?L) ''int bar() { return 1; } // calls foo''" by blast
  from rename_keeps_comments [where old_symbol = "''foo''" and new_symbol = "''bar''"
      and line = "''x = foo; /* foo''" and r = "''x = bar; /* foo''" and k = 9] h6
  have 6: "suffix (drop 9 ''x = foo; /* foo'') ''x = bar; /* foo''" by blast
  from 1 2 w4a w4b 5 6 show ?thesis by blast
qed

end
